theory Spec2Isabelle
  imports Complex_Main
begin

section \<open>Library circulation: the data model\<close>

text \<open>
  The development embeds the transaction lifecycle of the library backend: the Mongoose
  models \<^verbatim>\<open>Book\<close>, \<^verbatim>\<open>Student\<close> and \<^verbatim>\<open>Transaction\<close>, the
  methods \<^verbatim>\<open>checkOverdue\<close> and \<^verbatim>\<open>calculateFine\<close> of the transaction schema, and
  the four routes \<^verbatim>\<open>POST /issue\<close>, \<^verbatim>\<open>POST /return\<close>, \<^verbatim>\<open>POST /renew\<close> and
  \<^verbatim>\<open>GET /meta/overdue\<close> of the transactions router.

  Conventions of the embedding.
  \<^item> A JavaScript \<^verbatim>\<open>Date\<close> is its \<^verbatim>\<open>getTime()\<close> value: an integer number of
    milliseconds. Every \<^verbatim>\<open>new Date()\<close> of the source is an explicit argument: the
    instant the clock showed at that call.
  \<^item> \<^verbatim>\<open>setDate(getDate() + 14)\<close> moves a date by fourteen calendar days of the
    server's local time; the time zone of the server is an argument of the routes that
    compute a due date.
  \<^item> Document identifiers (\<^verbatim>\<open>ObjectId\<close>) are natural numbers; counters and amounts
    (\<^verbatim>\<open>Number\<close>) are integers.
  \<^item> The books and students collections are read by identifier only and are finite maps;
    the transactions collection is queried by field values, counted and sorted, and is a
    list of documents in insertion order.
  \<^item> A route returns its response together with the database it leaves behind, so that a
    request that fails after a write shows the write.
  \<^item> Stored documents are taken to satisfy the validators of their schema, so the
    validation that \<^verbatim>\<open>save()\<close> runs can fail only on a value the route has just set;
    \<^verbatim>\<open>populate\<close> decorates the response and is taken not to bear on what
    \<^verbatim>\<open>save()\<close> validates and writes. Requests are served one after the other.
\<close>

type_synonym date = int

type_synonym objectId = nat

definition day_ms :: int where
  "day_ms = 1000 * 60 * 60 * 24"

text \<open>
  The time zone of the server, as ECMAScript's \<^verbatim>\<open>LocalTZA(t, isUTC)\<close> gives it: the
  offset of local time from UTC in milliseconds, at an instant given in UTC
  (\<open>offsetAtUTC\<close>) and at a local time (\<open>offsetAtLocal\<close>).
\<close>

record TimeZone =
  offsetAtUTC :: "date \<Rightarrow> int"
  offsetAtLocal :: "date \<Rightarrow> int"

text \<open>ECMAScript's \<^verbatim>\<open>LocalTime(t)\<close> and \<^verbatim>\<open>UTC(t)\<close>.\<close>

definition localTime :: "TimeZone \<Rightarrow> date \<Rightarrow> int" where
  "localTime zone t = t + offsetAtUTC zone t"

definition utcTime :: "TimeZone \<Rightarrow> int \<Rightarrow> date" where
  "utcTime zone l = l - offsetAtLocal zone l"

text \<open>
  \<^verbatim>\<open>d.setDate(d.getDate() + n)\<close>: the date moves by \<open>n\<close> calendar days of local
  time, the local time of day staying as it is, and is turned back into an instant.
\<close>

definition addDays :: "TimeZone \<Rightarrow> date \<Rightarrow> int \<Rightarrow> date" where
  "addDays zone d n = utcTime zone (localTime zone d + n * day_ms)"

text \<open>A zone that keeps UTC.\<close>

definition utcZone :: TimeZone where
  "utcZone = \<lparr>offsetAtUTC = (\<lambda>t. 0), offsetAtLocal = (\<lambda>l. 0)\<rparr>"

text \<open>
  US Eastern time in the weeks around 10 March 2024: five hours behind UTC until
  07:00 UTC of that day (instant 1710054000000), four hours behind from then on; a local
  time before 03:00 of that day is read with the earlier offset.
\<close>

definition hour_ms :: int where
  "hour_ms = 1000 * 60 * 60"

definition easternZone :: TimeZone where
  "easternZone =
     \<lparr>offsetAtUTC = (\<lambda>t. if t < 1710054000000 then - 5 * hour_ms else - 4 * hour_ms),
      offsetAtLocal = (\<lambda>l. if l < 1710054000000 - 4 * hour_ms then - 5 * hour_ms
                             else - 4 * hour_ms)\<rparr>"

text \<open>\<^verbatim>\<open>Math.ceil(a / b)\<close> for a positive divisor, on integers.\<close>

definition ceilDiv :: "int \<Rightarrow> int \<Rightarrow> int" where
  "ceilDiv a b = - ((- a) div b)"

subsection \<open>models/Book.js\<close>

text \<open>Of the book schema the circulation routes read and write three fields.\<close>

record Book =
  isActive :: bool
  totalCopies :: int
  availableCopies :: int

subsection \<open>models/Student.js\<close>

datatype studentStatus = StudentActive | StudentInactive | StudentGraduated

record Student =
  studentStatus :: studentStatus
  maxBooksAllowed :: int
  currentBooksIssued :: int

subsection \<open>models/Transaction.js\<close>

datatype txType = TypeIssue | TypeReturn | TypeRenew

datatype txStatus = Active | Returned | Overdue | Lost

datatype fineReason = ReasonOverdue | ReasonDamage | ReasonLost | ReasonNone

record Fine =
  amount :: int
  reason :: fineReason
  paid :: bool
  paidDate :: "date option"

record Transaction =
  tid :: objectId
  book :: objectId
  student :: objectId
  txType :: txType
  issueDate :: date
  dueDate :: date
  returnDate :: "date option"
  status :: txStatus
  fine :: Fine
  renewalCount :: int
  txNotes :: "string option"
  processedBy :: objectId

text \<open>
  \<^verbatim>\<open>TransactionSchema.methods.checkOverdue\<close>; \<open>now\<close> is the value of its
  \<^verbatim>\<open>new Date()\<close>. The result is the returned flag and the document after the call.
\<close>

definition checkOverdue :: "date \<Rightarrow> Transaction \<Rightarrow> bool \<times> Transaction" where
  "checkOverdue now t =
     (if status t = Active \<and> now > dueDate t
      then (True, t\<lparr>status := Overdue\<rparr>)
      else (False, t))"

text \<open>
  \<^verbatim>\<open>TransactionSchema.methods.calculateFine\<close>; \<open>now\<close> is the value of its
  \<^verbatim>\<open>new Date()\<close>, read only when no return date is set
  (\<^verbatim>\<open>this.returnDate || new Date()\<close>). The result is the returned amount and the
  document after the call.
\<close>

definition calculateFine :: "date \<Rightarrow> Transaction \<Rightarrow> int \<times> Transaction" where
  "calculateFine now t =
     (let t' =
        (if status t = Overdue \<or> status t = Returned then
           (let currentDate = (case returnDate t of Some r \<Rightarrow> r | None \<Rightarrow> now);
                overdueDays = ceilDiv (currentDate - dueDate t) day_ms
            in if overdueDays > 0
               then t\<lparr>fine := (fine t)\<lparr>amount := overdueDays * 2, reason := ReasonOverdue\<rparr>\<rparr>
               else t)
         else t)
      in (amount (fine t'), t'))"

section \<open>The database and the circulation routes\<close>

record Database =
  books :: "objectId \<rightharpoonup> Book"
  students :: "objectId \<rightharpoonup> Student"
  transactions :: "Transaction list"

text \<open>
  The failure responses of the routes, by their message: 404 \<^verbatim>\<open>Book not found\<close>,
  400 \<^verbatim>\<open>Book is not available for issue\<close>, 404 \<^verbatim>\<open>Student not found\<close>,
  400 \<^verbatim>\<open>Student already has this book issued\<close>,
  400 \<^verbatim>\<open>Student has reached maximum book limit\<close>,
  404 \<^verbatim>\<open>Active transaction not found\<close>, 400 \<^verbatim>\<open>Maximum renewal limit reached\<close>,
  and an exception handed to \<^verbatim>\<open>next(error)\<close>. The request identifiers are taken to be
  present and well formed, so the \<^verbatim>\<open>express-validator\<close> check of each route passes.
\<close>

datatype error =
    BookNotFound
  | BookNotAvailable
  | StudentNotFound
  | AlreadyIssued
  | LimitReached
  | TransactionNotFound
  | RenewalLimitReached
  | ServerError

type_synonym response = "error + Transaction"

text \<open>\<^verbatim>\<open>Transaction.findOne(filter)\<close>: the first document that matches.\<close>

definition findOne :: "(Transaction \<Rightarrow> bool) \<Rightarrow> Transaction list \<Rightarrow> Transaction option" where
  "findOne p coll = find p coll"

text \<open>\<^verbatim>\<open>Transaction.countDocuments(filter)\<close>\<close>

definition countDocuments :: "(Transaction \<Rightarrow> bool) \<Rightarrow> Transaction list \<Rightarrow> int" where
  "countDocuments p coll = int (length (filter p coll))"

text \<open>\<^verbatim>\<open>transaction.save()\<close> of a loaded document: the stored document of that
  identifier is replaced.\<close>

definition saveTransaction :: "Transaction \<Rightarrow> Transaction list \<Rightarrow> Transaction list" where
  "saveTransaction t coll = map (\<lambda>x. if tid x = tid t then t else x) coll"

text \<open>The identifier \<^verbatim>\<open>Transaction.create\<close> gives a new document: one not in use.\<close>

definition newObjectId :: "Transaction list \<Rightarrow> objectId" where
  "newObjectId coll = Suc (fold max (map tid coll) 0)"

text \<open>The schema validator of \<^verbatim>\<open>notes\<close>: \<^verbatim>\<open>maxlength: 200\<close>.\<close>

definition notesValid :: "string option \<Rightarrow> bool" where
  "notesValid n = (case n of None \<Rightarrow> True | Some s \<Rightarrow> length s \<le> 200)"

text \<open>\<^verbatim>\<open>notes || transaction.notes\<close>: an absent or empty string is falsy.\<close>

definition orNotes :: "string option \<Rightarrow> string option \<Rightarrow> string option" where
  "orNotes n old = (case n of None \<Rightarrow> old | Some s \<Rightarrow> if s = [] then old else Some s)"

text \<open>
  Whether \<^verbatim>\<open>book.save()\<close> goes through after a change of \<^verbatim>\<open>availableCopies\<close>: the
  schema validator \<^verbatim>\<open>min: 0\<close> of the field, then the \<^verbatim>\<open>pre('save')\<close> hook, which
  fails when the available copies exceed the total.
\<close>

definition bookSaveOk :: "Book \<Rightarrow> bool" where
  "bookSaveOk b = (0 \<le> availableCopies b \<and> \<not> availableCopies b > totalCopies b)"

text \<open>
  \<^verbatim>\<open>router.post('/issue')\<close>. \<open>zone\<close> is the time zone of the server,
  \<open>user\<close> is \<^verbatim>\<open>req.user.id\<close> and \<open>now\<close> the value of
  \<^verbatim>\<open>new Date()\<close>. The new document takes the schema defaults. The
  \<^verbatim>\<open>pre('save')\<close> hook of the transaction schema only fills in a missing due date, and
  every route sets one.
\<close>

definition issue ::
  "TimeZone \<Rightarrow> objectId \<Rightarrow> objectId \<Rightarrow> string option \<Rightarrow> objectId \<Rightarrow> date \<Rightarrow> Database \<Rightarrow> response \<times> Database" where
  "issue zone bookId studentId reqNotes user now db =
     (case books db bookId of
        None \<Rightarrow> (Inl BookNotFound, db)
      | Some b \<Rightarrow>
          if \<not> isActive b then (Inl BookNotFound, db)
          else if availableCopies b \<le> 0 then (Inl BookNotAvailable, db)
          else
            (case students db studentId of
               None \<Rightarrow> (Inl StudentNotFound, db)
             | Some s \<Rightarrow>
                 if studentStatus s \<noteq> StudentActive then (Inl StudentNotFound, db)
                 else if findOne (\<lambda>t. book t = bookId \<and> student t = studentId \<and> status t = Active)
                           (transactions db) \<noteq> None
                 then (Inl AlreadyIssued, db)
                 else if countDocuments (\<lambda>t. student t = studentId \<and> status t = Active)
                           (transactions db) \<ge> maxBooksAllowed s
                 then (Inl LimitReached, db)
                 else if \<not> notesValid reqNotes then (Inl ServerError, db)
                 else
                   (let t = \<lparr>tid = newObjectId (transactions db), book = bookId,
                              student = studentId, txType = TypeIssue, issueDate = now,
                              dueDate = addDays zone now 14, returnDate = None, status = Active,
                              fine = \<lparr>amount = 0, reason = ReasonNone, paid = False,
                                      paidDate = None\<rparr>,
                              renewalCount = 0, txNotes = reqNotes, processedBy = user\<rparr>;
                        db1 = db\<lparr>transactions := transactions db @ [t]\<rparr>;
                        b' = b\<lparr>availableCopies := availableCopies b - 1\<rparr>
                    in if \<not> bookSaveOk b' then (Inl ServerError, db1)
                       else
                         (let db2 = db1\<lparr>books := (books db1)(bookId \<mapsto> b')\<rparr>;
                              s' = s\<lparr>currentBooksIssued := currentBooksIssued s + 1\<rparr>
                          in (Inr t, db2\<lparr>students := (students db2)(studentId \<mapsto> s')\<rparr>)))))"

text \<open>
  \<^verbatim>\<open>router.post('/return')\<close>. The return date is set before \<^verbatim>\<open>calculateFine\<close>
  runs, so the method does not read the clock. \<^verbatim>\<open>transaction.save()\<close> validates the
  changed paths, of which only the notes can fail. The book is read through the populated
  reference (\<^verbatim>\<open>transaction.book._id\<close>), which throws when the book is gone.
\<close>

definition returnBook ::
  "objectId \<Rightarrow> string option \<Rightarrow> date \<Rightarrow> Database \<Rightarrow> response \<times> Database" where
  "returnBook transactionId reqNotes now db =
     (case findOne (\<lambda>t. tid t = transactionId \<and> status t = Active) (transactions db) of
        None \<Rightarrow> (Inl TransactionNotFound, db)
      | Some t \<Rightarrow>
          (let t1 = t\<lparr>txType := TypeReturn, returnDate := Some now, status := Returned,
                      txNotes := orNotes reqNotes (txNotes t)\<rparr>;
               t2 = snd (calculateFine now t1)
           in if txNotes t2 \<noteq> txNotes t \<and> \<not> notesValid (txNotes t2) then (Inl ServerError, db)
              else
                (let db1 = db\<lparr>transactions := saveTransaction t2 (transactions db)\<rparr>
                 in case books db1 (book t2) of
                      None \<Rightarrow> (Inl ServerError, db1)
                    | Some b \<Rightarrow>
                        (let b' = b\<lparr>availableCopies := availableCopies b + 1\<rparr>
                         in if \<not> bookSaveOk b' then (Inl ServerError, db1)
                            else
                              (let db2 = db1\<lparr>books := (books db1)(book t2 \<mapsto> b')\<rparr>
                               in case students db2 (student t2) of
                                    None \<Rightarrow> (Inr t2, db2)
                                  | Some s \<Rightarrow>
                                      if currentBooksIssued s > 0
                                      then (Inr t2, db2\<lparr>students := (students db2)(student t2 \<mapsto>
                                              s\<lparr>currentBooksIssued := currentBooksIssued s - 1\<rparr>)\<rparr>)
                                      else (Inr t2, db2))))))"

text \<open>\<^verbatim>\<open>router.post('/renew')\<close>; \<open>now\<close> is the value of its \<^verbatim>\<open>new Date()\<close>.\<close>

definition renew :: "TimeZone \<Rightarrow> objectId \<Rightarrow> date \<Rightarrow> Database \<Rightarrow> response \<times> Database" where
  "renew zone transactionId now db =
     (case findOne (\<lambda>t. tid t = transactionId \<and> status t = Active) (transactions db) of
        None \<Rightarrow> (Inl TransactionNotFound, db)
      | Some t \<Rightarrow>
          if renewalCount t \<ge> 3 then (Inl RenewalLimitReached, db)
          else
            (let t' = t\<lparr>renewalCount := renewalCount t + 1, dueDate := addDays zone now 14\<rparr>
             in (Inr t', db\<lparr>transactions := saveTransaction t' (transactions db)\<rparr>)))"

text \<open>
  \<^verbatim>\<open>router.get('/meta/overdue')\<close>. The route reads the clock once for the query and
  then, in the loop, once in \<^verbatim>\<open>checkOverdue\<close> and once in \<^verbatim>\<open>calculateFine\<close>
  for each document found; \<open>clock k\<close> is the value of the \<open>k\<close>-th reading. The found
  documents come sorted by due date. The loop returns the documents as it leaves them and
  the collection after the saves.
\<close>

fun overdueLoop ::
  "(nat \<Rightarrow> date) \<Rightarrow> nat \<Rightarrow> Transaction list \<Rightarrow> Transaction list \<Rightarrow> Transaction list \<times> Transaction list" where
  "overdueLoop clock k [] coll = ([], coll)"
| "overdueLoop clock k (t # ts) coll =
     (let t1 = snd (checkOverdue (clock k) t);
          t2 = snd (calculateFine (clock (k + 1)) t1);
          r = overdueLoop clock (k + 2) ts (saveTransaction t2 coll)
      in (t2 # fst r, snd r))"

definition overdue :: "(nat \<Rightarrow> date) \<Rightarrow> Database \<Rightarrow> (nat \<times> Transaction list) \<times> Database" where
  "overdue clock db =
     (let overdueTransactions =
            sort_key dueDate
              (filter (\<lambda>t. status t = Active \<and> dueDate t < clock 0) (transactions db));
          r = overdueLoop clock 1 overdueTransactions (transactions db)
      in ((length (fst r), fst r), db\<lparr>transactions := snd r\<rparr>))"

text \<open>A clock that shows the same instant at every reading.\<close>

definition constClock :: "date \<Rightarrow> nat \<Rightarrow> date" where
  "constClock now k = now"

text \<open>A clock that shows \<open>now\<close> at the first reading and one millisecond more at every
  later reading.\<close>

definition tickingClock :: "date \<Rightarrow> nat \<Rightarrow> date" where
  "tickingClock now k = (if k = 0 then now else now + 1)"

subsection \<open>Sequences of requests\<close>

datatype request =
    Issue objectId objectId "string option" objectId date
  | Return objectId "string option" date
  | Renew objectId date
  | OverdueSweep "nat \<Rightarrow> date"

fun handle :: "TimeZone \<Rightarrow> request \<Rightarrow> Database \<Rightarrow> Database" where
  "handle zone (Issue bookId studentId reqNotes user now) db =
     snd (issue zone bookId studentId reqNotes user now db)"
| "handle zone (Return transactionId reqNotes now) db = snd (returnBook transactionId reqNotes now db)"
| "handle zone (Renew transactionId now) db = snd (renew zone transactionId now db)"
| "handle zone (OverdueSweep clock) db = snd (overdue clock db)"

fun run :: "TimeZone \<Rightarrow> request list \<Rightarrow> Database \<Rightarrow> Database" where
  "run zone [] db = db"
| "run zone (r # rs) db = run zone rs (handle zone r db)"

subsection \<open>The fine of the specification\<close>

text \<open>
  The settlement date of a loan under evaluation at \<open>now\<close>, as \<^verbatim>\<open>calculateFine\<close>
  takes it: the return date when one is set, the evaluation instant otherwise.
\<close>

definition settlementDate :: "date \<Rightarrow> Transaction \<Rightarrow> date" where
  "settlementDate now t = (case returnDate t of Some r \<Rightarrow> r | None \<Rightarrow> now)"

text \<open>
  The amount in the words of the specification:
  \<^verbatim>\<open>max(0, ceil((settlementDate - dueDate) / 1 day)) * ratePerDay\<close>, the rate being 2,
  with the quotient taken in the reals.
\<close>

definition fineFormula :: "date \<Rightarrow> date \<Rightarrow> int" where
  "fineFormula settlement due =
     max 0 \<lceil>real_of_int (settlement - due) / real_of_int day_ms\<rceil> * 2"

subsection \<open>Example documents\<close>

text \<open>A loan issued at instant 0 and due fourteen days later, as \<^verbatim>\<open>/issue\<close> creates it
  on a server that keeps UTC.\<close>

definition exLoan :: Transaction where
  "exLoan = \<lparr>tid = 1, book = 1, student = 1, txType = TypeIssue, issueDate = 0,
      dueDate = 14 * day_ms, returnDate = None, status = Active,
      fine = \<lparr>amount = 0, reason = ReasonNone, paid = False, paidDate = None\<rparr>,
      renewalCount = 0, txNotes = None, processedBy = 9\<rparr>"

text \<open>The loan returned on its due date, carrying a fine of 10 for damage.\<close>

definition damagedLoan :: Transaction where
  "damagedLoan = exLoan\<lparr>txType := TypeReturn, returnDate := Some (14 * day_ms), status := Returned,
      fine := \<lparr>amount = 10, reason = ReasonDamage, paid = False, paidDate = None\<rparr>\<rparr>"

text \<open>The loan overdue and not returned, carrying a fine of 10.\<close>

definition finedLoan :: Transaction where
  "finedLoan = exLoan\<lparr>status := Overdue,
      fine := \<lparr>amount = 10, reason = ReasonOverdue, paid = False, paidDate = None\<rparr>\<rparr>"

text \<open>A book with a single copy, on the shelf, and a student allowed one book.\<close>

definition exBook :: Book where
  "exBook = \<lparr>isActive = True, totalCopies = 1, availableCopies = 1\<rparr>"

definition exStudent :: Student where
  "exStudent = \<lparr>studentStatus = StudentActive, maxBooksAllowed = 1, currentBooksIssued = 0\<rparr>"

text \<open>A library with two such books, one such student and no loan.\<close>

definition exDb :: Database where
  "exDb = \<lparr>books = [1 \<mapsto> exBook, 2 \<mapsto> exBook], students = [1 \<mapsto> exStudent],
           transactions = []\<rparr>"

text \<open>The library after book 1 was issued to student 1 at instant 0, the server keeping UTC.\<close>

definition lentDb :: Database where
  "lentDb = run utcZone [Issue 1 1 None 9 0] exDb"

text \<open>The library after that issue and an overdue sweep on day 15, one day past the due date.\<close>

definition sweptDb :: Database where
  "sweptDb = run utcZone [Issue 1 1 None 9 0, OverdueSweep (constClock (15 * day_ms))] exDb"

subsection \<open>The body of the sweep loop\<close>

text \<open>What one pass of the loop of \<^verbatim>\<open>/meta/overdue\<close> makes of a document, the two
  methods reading the clock at \<open>c1\<close> and \<open>c2\<close>.\<close>

definition sweepDoc :: "date \<Rightarrow> date \<Rightarrow> Transaction \<Rightarrow> Transaction" where
  "sweepDoc c1 c2 t = snd (calculateFine c2 (snd (checkOverdue c1 t)))"

subsection \<open>Consistent states\<close>

text \<open>The number of loans with status \<^verbatim>\<open>active\<close> that refer to a given book or student.\<close>

definition activeLoans :: "(Transaction \<Rightarrow> objectId) \<Rightarrow> objectId \<Rightarrow> Transaction list \<Rightarrow> int" where
  "activeLoans ref i coll = countDocuments (\<lambda>t. ref t = i \<and> status t = Active) coll"

text \<open>
  A state is consistent when transaction identifiers are unique, every student's counter
  is the number of the student's active loans and within the student's limit, and for every
  book the available copies are not negative and, together with the book's active loans,
  within the total; a book that is not in the collection has no active loan.
\<close>

definition consistent :: "Database \<Rightarrow> bool" where
  "consistent db \<longleftrightarrow>
     distinct (map tid (transactions db))
     \<and> (\<forall>sid s. students db sid = Some s \<longrightarrow>
           currentBooksIssued s = activeLoans student sid (transactions db)
           \<and> currentBooksIssued s \<le> maxBooksAllowed s)
     \<and> (\<forall>bid. case books db bid of
             None \<Rightarrow> activeLoans book bid (transactions db) = 0
           | Some b \<Rightarrow> 0 \<le> availableCopies b
               \<and> availableCopies b + activeLoans book bid (transactions db) \<le> totalCopies b)"

fun isSweep :: "request \<Rightarrow> bool" where
  "isSweep (OverdueSweep clock) = True"
| "isSweep r = False"

section \<open>The fine computation\<close>

lemma day_ms_pos: "0 < day_ms"
  by (simp add: day_ms_def)

text \<open>The integer \<open>ceilDiv\<close> is the ceiling of the exact quotient.\<close>

lemma ceilDiv_ceiling: "ceilDiv a b = \<lceil>real_of_int a / real_of_int b\<rceil>"
  by (simp add: ceilDiv_def ceiling_divide_eq_div)


lemma ceilDiv_pos_iff: "0 < b \<Longrightarrow> 0 < ceilDiv a b \<longleftrightarrow> 0 < a"
  by (simp add: ceilDiv_def pos_imp_zdiv_neg_iff)

lemma ceilDiv_mono: "0 < b \<Longrightarrow> a \<le> a' \<Longrightarrow> ceilDiv a b \<le> ceilDiv a' b"
  by (simp add: ceilDiv_def zdiv_mono1)

lemma ceilDiv_exact: "b \<noteq> 0 \<Longrightarrow> ceilDiv (n * b) b = n"
proof -
  assume "b \<noteq> 0"
  then have "((- n) * b) div b = - n"
    by (rule nonzero_mult_div_cancel_right)
  then show ?thesis
    by (simp add: ceilDiv_def)
qed

lemma calculateFine_fst: "fst (calculateFine now t) = amount (fine (snd (calculateFine now t)))"
  by (simp add: calculateFine_def Let_def)

lemma calculateFine_amount:
  "amount (fine (snd (calculateFine now t))) =
     (if (status t = Overdue \<or> status t = Returned) \<and> dueDate t < settlementDate now t
      then ceilDiv (settlementDate now t - dueDate t) day_ms * 2
      else amount (fine t))"
  by (simp add: calculateFine_def Let_def settlementDate_def ceilDiv_pos_iff day_ms_pos)

lemma calculateFine_unchanged:
  "\<not> ((status t = Overdue \<or> status t = Returned) \<and> dueDate t < settlementDate now t) \<Longrightarrow>
     snd (calculateFine now t) = t"
  by (auto simp add: calculateFine_def Let_def settlementDate_def ceilDiv_pos_iff day_ms_pos)

lemma fineFormula_ceilDiv: "fineFormula s d = max 0 (ceilDiv (s - d) day_ms) * 2"
  by (simp add: fineFormula_def ceilDiv_ceiling)

lemma fineFormula_late: "d < s \<Longrightarrow> fineFormula s d = ceilDiv (s - d) day_ms * 2"
  using ceilDiv_pos_iff [OF day_ms_pos, of "s - d"] by (simp add: fineFormula_ceilDiv)

lemma fineFormula_on_time: "s \<le> d \<Longrightarrow> fineFormula s d = 0"
  using ceilDiv_pos_iff [OF day_ms_pos, of "s - d"] by (simp add: fineFormula_ceilDiv)

text \<open>
  Claim C5, as amended. For a loan whose status is \<^verbatim>\<open>overdue\<close> or \<^verbatim>\<open>returned\<close>,
  \<^verbatim>\<open>calculateFine\<close> stores and returns the amount of the specification's formula,
  \<open>max 0 (ceil ((settlementDate - dueDate) / 1 day)) * 2\<close>, when the settlement date is
  strictly after the due date, and keeps the amount the loan already carries otherwise. So
  the formula gives the amount for every loan that carries no fine before the call; a
  settlement three days after the due date owes \<open>3 * 2\<close>; a loan with no earlier fine
  settled on or before its due date owes 0.
\<close>

theorem calculateFine_formula:
  "status t = Overdue \<or> status t = Returned \<Longrightarrow>
   amount (fine (snd (calculateFine now t))) =
       (if dueDate t < settlementDate now t
        then fineFormula (settlementDate now t) (dueDate t) else amount (fine t))
   \<and> fst (calculateFine now t) = amount (fine (snd (calculateFine now t)))
   \<and> (amount (fine t) = 0 \<longrightarrow>
        fst (calculateFine now t) = fineFormula (settlementDate now t) (dueDate t))
   \<and> (settlementDate now t = dueDate t + 3 * day_ms \<longrightarrow> fst (calculateFine now t) = 3 * 2)
   \<and> (settlementDate now t \<le> dueDate t \<and> amount (fine t) = 0 \<longrightarrow> fst (calculateFine now t) = 0)"
proof -
  assume st: "status t = Overdue \<or> status t = Returned"
  let ?s = "settlementDate now t"
  have a: "amount (fine (snd (calculateFine now t))) =
       (if dueDate t < ?s then fineFormula ?s (dueDate t) else amount (fine t))"
    using st by (simp add: calculateFine_amount fineFormula_late)
  have b: "fst (calculateFine now t) = amount (fine (snd (calculateFine now t)))"
    by (rule calculateFine_fst)
  have c: "fst (calculateFine now t) = fineFormula ?s (dueDate t)" if "amount (fine t) = 0"
    using a b that by (simp add: fineFormula_on_time)
  have d: "fst (calculateFine now t) = 3 * 2" if "?s = dueDate t + 3 * day_ms"
  proof -
    have "dueDate t < ?s" using that day_ms_pos by simp
    moreover have "ceilDiv (?s - dueDate t) day_ms = 3"
      using that ceilDiv_exact [of day_ms 3] day_ms_pos by simp
    ultimately show ?thesis using a b by (simp add: fineFormula_late)
  qed
  have e: "fst (calculateFine now t) = 0" if "?s \<le> dueDate t" "amount (fine t) = 0"
    using a b that by simp
  show ?thesis using a b c d e by blast
qed

theorem calculateFine_formula_witness:
  "amount (fine (snd (calculateFine 0
      (exLoan\<lparr>status := Returned, returnDate := Some (17 * day_ms)\<rparr>)))) = 6
   \<and> fst (calculateFine 0 (exLoan\<lparr>status := Returned, returnDate := Some (14 * day_ms)\<rparr>)) = 0"
  using calculateFine_formula [of "exLoan\<lparr>status := Returned, returnDate := Some (17 * day_ms)\<rparr>" 0]
    calculateFine_formula [of "exLoan\<lparr>status := Returned, returnDate := Some (14 * day_ms)\<rparr>" 0]
  by (simp add: exLoan_def settlementDate_def fineFormula_def day_ms_def)

text \<open>
  Claim C5 as stated fails for a loan that already carries a fine: returned on its due
  date with a fine of 10 recorded, the computation yields 10, and the formula 0.
\<close>

theorem calculateFine_formula_counterexample:
  "status damagedLoan = Returned \<and> returnDate damagedLoan = Some (dueDate damagedLoan)
   \<and> fst (calculateFine 0 damagedLoan) = 10
   \<and> fineFormula (dueDate damagedLoan) (dueDate damagedLoan) = 0"
  by (simp add: damagedLoan_def exLoan_def calculateFine_def ceilDiv_def fineFormula_def Let_def)

text \<open>
  Claim C10, as amended. \<^verbatim>\<open>calculateFine\<close> leaves the loan, and so the amount and the
  reason of its fine, unchanged when the status is neither \<^verbatim>\<open>overdue\<close> nor
  \<^verbatim>\<open>returned\<close>, or when the settlement date is not strictly after the due date: a fine
  accrued earlier is kept by a recomputation made on or before a due date that has been
  pushed forward. Otherwise the amount is overwritten by twice the number of days late,
  whatever it was, and the reason by \<^verbatim>\<open>overdue\<close>. With the due date as it is, a
  recomputation at a later instant does not lower a fine that \<^verbatim>\<open>calculateFine\<close>
  accrued.
\<close>

theorem calculateFine_retains:
  "((status t \<noteq> Overdue \<and> status t \<noteq> Returned) \<or> settlementDate now t \<le> dueDate t \<longrightarrow>
       snd (calculateFine now t) = t)
   \<and> ((status t = Overdue \<or> status t = Returned) \<and> dueDate t < settlementDate now t \<longrightarrow>
       fine (snd (calculateFine now t)) =
         (fine t)\<lparr>amount := ceilDiv (settlementDate now t - dueDate t) day_ms * 2,
                  reason := ReasonOverdue\<rparr>)
   \<and> (dueDate t < settlementDate now t \<and> now \<le> now' \<longrightarrow>
       amount (fine (snd (calculateFine now t)))
         \<le> amount (fine (snd (calculateFine now' (snd (calculateFine now t))))))"
proof (intro conjI impI)
  assume "(status t \<noteq> Overdue \<and> status t \<noteq> Returned) \<or> settlementDate now t \<le> dueDate t"
  then show "snd (calculateFine now t) = t"
    by (intro calculateFine_unchanged) auto
next
  assume "(status t = Overdue \<or> status t = Returned) \<and> dueDate t < settlementDate now t"
  then show "fine (snd (calculateFine now t)) =
         (fine t)\<lparr>amount := ceilDiv (settlementDate now t - dueDate t) day_ms * 2,
                  reason := ReasonOverdue\<rparr>"
    by (auto simp add: calculateFine_def Let_def settlementDate_def ceilDiv_pos_iff day_ms_pos)
next
  assume h: "dueDate t < settlementDate now t \<and> now \<le> now'"
  let ?t1 = "snd (calculateFine now t)"
  have same: "status ?t1 = status t" "dueDate ?t1 = dueDate t" "returnDate ?t1 = returnDate t"
    by (simp_all add: calculateFine_def Let_def)
  have le: "settlementDate now t \<le> settlementDate now' ?t1"
    using h same by (simp add: settlementDate_def split: option.splits)
  show "amount (fine ?t1) \<le> amount (fine (snd (calculateFine now' ?t1)))"
  proof (cases "status t = Overdue \<or> status t = Returned")
    case True
    have "ceilDiv (settlementDate now t - dueDate t) day_ms
            \<le> ceilDiv (settlementDate now' ?t1 - dueDate t) day_ms"
      using le by (intro ceilDiv_mono day_ms_pos) simp
    then show ?thesis
      using True h le same by (simp add: calculateFine_amount [of now' ?t1] calculateFine_amount [of now t])
  next
    case False
    then show ?thesis by (simp add: calculateFine_def)
  qed
qed

theorem calculateFine_retains_witness:
  "snd (calculateFine (20 * day_ms) (finedLoan\<lparr>dueDate := 34 * day_ms\<rparr>)) = finedLoan\<lparr>dueDate := 34 * day_ms\<rparr>
   \<and> amount (fine (snd (calculateFine (15 * day_ms) finedLoan))) = 2"
  using calculateFine_retains [of "finedLoan\<lparr>dueDate := 34 * day_ms\<rparr>" "20 * day_ms" "20 * day_ms"]
    calculateFine_retains [of finedLoan "15 * day_ms" "15 * day_ms"]
  by (simp add: finedLoan_def exLoan_def settlementDate_def day_ms_def ceilDiv_def)

text \<open>
  Claim C10 as stated fails: an overdue loan that carries a fine of 10 and is evaluated one
  day after its due date leaves \<^verbatim>\<open>calculateFine\<close> with a fine of 2.
\<close>

theorem calculateFine_retains_counterexample:
  "status finedLoan = Overdue \<and> amount (fine finedLoan) = 10
   \<and> settlementDate (15 * day_ms) finedLoan = dueDate finedLoan + day_ms
   \<and> amount (fine (snd (calculateFine (15 * day_ms) finedLoan))) = 2"
  by (simp add: finedLoan_def exLoan_def calculateFine_def settlementDate_def ceilDiv_def
      day_ms_def Let_def)

section \<open>Evaluating the routes on the examples\<close>

lemmas route_defs = issue_def returnBook_def renew_def overdue_def findOne_def countDocuments_def
    notesValid_def orNotes_def newObjectId_def bookSaveOk_def addDays_def localTime_def utcTime_def
    utcZone_def constClock_def checkOverdue_def
    calculateFine_def saveTransaction_def ceilDiv_def Let_def

lemmas ex_defs = exDb_def exBook_def exStudent_def lentDb_def sweptDb_def exLoan_def

lemma lentDb_eq: "lentDb = \<lparr>books = [1 \<mapsto> exBook\<lparr>availableCopies := 0\<rparr>, 2 \<mapsto> exBook],
    students = [1 \<mapsto> exStudent\<lparr>currentBooksIssued := 1\<rparr>], transactions = [exLoan]\<rparr>"
  by (simp add: ex_defs route_defs fun_upd_twist)

lemma sweptDb_eq: "sweptDb = lentDb\<lparr>transactions := [exLoan\<lparr>status := Overdue,
     fine := \<lparr>amount = 2, reason = ReasonOverdue, paid = False, paidDate = None\<rparr>\<rparr>]\<rparr>"
  by (simp add: ex_defs route_defs fun_upd_twist day_ms_def)

section \<open>Requests that are refused\<close>

text \<open>
  Claim C8. An issue, return or renew request that is answered with one of the routes' own
  refusals (book or student or active transaction not found, book not available, book
  already issued to the student, book limit reached, renewal limit reached) leaves the
  database as it was: books, students and transactions. Only a request that ends in an
  exception can leave a write behind.
\<close>

theorem failed_request_leaves_state:
  "e \<noteq> ServerError \<Longrightarrow>
   (issue zone bookId studentId reqNotes user now db = (Inl e, db') \<longrightarrow> db' = db) \<and>
   (returnBook transactionId reqNotes now db = (Inl e, db') \<longrightarrow> db' = db) \<and>
   (renew zone transactionId now db = (Inl e, db') \<longrightarrow> db' = db)"
  by (auto simp add: issue_def returnBook_def renew_def Let_def split: option.splits if_splits)

theorem failed_request_leaves_state_witness:
  "issue utcZone 3 1 None 9 0 exDb = (Inl BookNotFound, exDb)
   \<and> returnBook 1 None 0 exDb = (Inl TransactionNotFound, exDb)
   \<and> renew utcZone 1 0 exDb = (Inl TransactionNotFound, exDb)"
proof -
  have i: "issue utcZone 3 1 None 9 0 exDb = (Inl BookNotFound, snd (issue utcZone 3 1 None 9 0 exDb))"
    by (simp add: issue_def exDb_def)
  have r: "returnBook 1 None 0 exDb = (Inl TransactionNotFound, snd (returnBook 1 None 0 exDb))"
    by (simp add: returnBook_def findOne_def exDb_def)
  have n: "renew utcZone 1 0 exDb = (Inl TransactionNotFound, snd (renew utcZone 1 0 exDb))"
    by (simp add: renew_def findOne_def exDb_def)
  show ?thesis
    using i r n
      failed_request_leaves_state [where e = BookNotFound and zone = utcZone and bookId = 3
        and studentId = 1
        and reqNotes = None and user = 9 and now = 0 and db = exDb
        and db' = "snd (issue utcZone 3 1 None 9 0 exDb)"]
      failed_request_leaves_state [where e = TransactionNotFound and transactionId = 1
        and reqNotes = None and now = 0 and db = exDb and db' = "snd (returnBook 1 None 0 exDb)"]
      failed_request_leaves_state [where e = TransactionNotFound and zone = utcZone
        and transactionId = 1 and now = 0 and db = exDb and db' = "snd (renew utcZone 1 0 exDb)"]
    by simp
qed

section \<open>Issuing a title twice\<close>

lemma find_member: "t \<in> set xs \<Longrightarrow> P t \<Longrightarrow> find P xs \<noteq> None"
  by (auto simp add: find_None_iff)

text \<open>
  Claim C2, as amended. While a loan of a title to a borrower has status \<^verbatim>\<open>active\<close>,
  a further issue request for the same pair is refused and changes nothing: no loan is
  created, no counter moves. The refusal is that of the first check of the route that
  fails: \<^verbatim>\<open>Book not found\<close> when the book is missing or not active, else
  \<^verbatim>\<open>Book is not available for issue\<close> when it has no copy available, else
  \<^verbatim>\<open>Student not found\<close> when the student is missing or not active, and
  \<^verbatim>\<open>Student already has this book issued\<close> when the request passes all of these.
\<close>

theorem issue_duplicate_rejected:
  "t \<in> set (transactions db) \<Longrightarrow> book t = bookId \<Longrightarrow> student t = studentId \<Longrightarrow>
   status t = Active \<Longrightarrow>
   snd (issue zone bookId studentId reqNotes user now db) = db
   \<and> fst (issue zone bookId studentId reqNotes user now db)
        \<in> {Inl BookNotFound, Inl BookNotAvailable, Inl StudentNotFound, Inl AlreadyIssued}
   \<and> (books db bookId = None \<longrightarrow>
        fst (issue zone bookId studentId reqNotes user now db) = Inl BookNotFound)
   \<and> (books db bookId = Some b \<and> \<not> isActive b \<longrightarrow>
        fst (issue zone bookId studentId reqNotes user now db) = Inl BookNotFound)
   \<and> (books db bookId = Some b \<and> isActive b \<and> availableCopies b \<le> 0 \<longrightarrow>
        fst (issue zone bookId studentId reqNotes user now db) = Inl BookNotAvailable)
   \<and> (books db bookId = Some b \<and> isActive b \<and> 0 < availableCopies b
        \<and> students db studentId = None \<longrightarrow>
        fst (issue zone bookId studentId reqNotes user now db) = Inl StudentNotFound)
   \<and> (books db bookId = Some b \<and> isActive b \<and> 0 < availableCopies b
        \<and> students db studentId = Some s \<and> studentStatus s \<noteq> StudentActive \<longrightarrow>
        fst (issue zone bookId studentId reqNotes user now db) = Inl StudentNotFound)
   \<and> (books db bookId = Some b \<and> isActive b \<and> 0 < availableCopies b
        \<and> students db studentId = Some s \<and> studentStatus s = StudentActive \<longrightarrow>
        issue zone bookId studentId reqNotes user now db = (Inl AlreadyIssued, db))"
proof -
  assume "t \<in> set (transactions db)" "book t = bookId" "student t = studentId" "status t = Active"
  then have dup: "findOne (\<lambda>t. book t = bookId \<and> student t = studentId \<and> status t = Active)
      (transactions db) \<noteq> None"
    unfolding findOne_def by (intro find_member [of t]) auto
  show ?thesis
    using dup by (auto simp add: issue_def split: option.splits)
qed

theorem issue_duplicate_rejected_witness:
  "issue utcZone 1 1 None 9 day_ms (lentDb\<lparr>books := [1 \<mapsto> exBook]\<rparr>)
     = (Inl AlreadyIssued, lentDb\<lparr>books := [1 \<mapsto> exBook]\<rparr>)
   \<and> fst (issue utcZone 1 1 None 9 day_ms lentDb) = Inl BookNotAvailable
   \<and> snd (issue utcZone 1 1 None 9 day_ms lentDb) = lentDb"
  using issue_duplicate_rejected [where t = exLoan and db = "lentDb\<lparr>books := [1 \<mapsto> exBook]\<rparr>"
      and zone = utcZone and bookId = 1 and studentId = 1 and b = exBook
      and s = "exStudent\<lparr>currentBooksIssued := 1\<rparr>" and reqNotes = None and user = 9
      and now = day_ms]
    issue_duplicate_rejected [where t = exLoan and db = lentDb
      and zone = utcZone and bookId = 1 and studentId = 1 and b = "exBook\<lparr>availableCopies := 0\<rparr>"
      and reqNotes = None and user = 9 and now = day_ms]
  by (simp add: lentDb_eq exLoan_def exBook_def exStudent_def)

text \<open>
  Claim C2 as stated fails where the only copy of the title is the one the borrower holds:
  the second request is refused with \<^verbatim>\<open>Book is not available for issue\<close>, the stock
  check coming before the duplicate check.
\<close>

theorem issue_duplicate_counterexample:
  "transactions lentDb = [exLoan] \<and> book exLoan = 1 \<and> student exLoan = 1 \<and> status exLoan = Active
   \<and> issue utcZone 1 1 None 9 day_ms lentDb = (Inl BookNotAvailable, lentDb)"
  by (simp add: lentDb_eq exLoan_def exBook_def issue_def)

section \<open>Renewal\<close>

lemma find_by_id:
  "distinct (map tid xs) \<Longrightarrow> t \<in> set xs \<Longrightarrow>
     find (\<lambda>x. tid x = tid t \<and> P x) xs = (if P t then Some t else None)"
proof (induction xs)
  case Nil
  then show ?case by simp
next
  case (Cons x xs)
  show ?case
  proof (cases "x = t")
    case True
    from Cons.prems True have nin: "tid t \<notin> tid ` set xs" by simp
    have "\<forall>y\<in>set xs. tid y \<noteq> tid t"
    proof
      fix y assume "y \<in> set xs"
      then have "tid y \<in> tid ` set xs" by (rule imageI)
      with nin show "tid y \<noteq> tid t" by metis
    qed
    then have "find (\<lambda>x. tid x = tid t \<and> P x) xs = None"
      unfolding find_None_iff by blast
    with True show ?thesis by simp
  next
    case False
    with Cons.prems have "t \<in> set xs" "tid x \<noteq> tid t" by auto
    with Cons show ?thesis by simp
  qed
qed

lemma saveTransaction_by_id:
  "distinct (map tid xs) \<Longrightarrow> t \<in> set xs \<Longrightarrow> tid t' = tid t \<Longrightarrow>
     saveTransaction t' xs = map (\<lambda>x. if x = t then t' else x) xs"
  unfolding saveTransaction_def
  by (rule map_cong) (auto simp add: distinct_map inj_on_def)

lemma addDays_offset:
  "addDays zone d n =
     d + n * day_ms + (offsetAtUTC zone d - offsetAtLocal zone (d + offsetAtUTC zone d + n * day_ms))"
  by (simp add: addDays_def localTime_def utcTime_def)

text \<open>
  Claim C6, as amended. For a loan \<open>t\<close> of the collection (identifiers being unique), a
  renew request succeeds if and only if the status of \<open>t\<close> is \<^verbatim>\<open>active\<close> and its
  renewal count is below 3. On success the count goes up by one and the due date becomes
  the instant of the renewal moved on by fourteen calendar days of the server's local time,
  in the response and in the stored document, every other document staying as it is. That
  due date is the instant of the renewal plus fourteen times 24 hours, corrected by the
  change of the zone's offset between the two dates: exactly fourteen days when the offset
  is the same at both, an hour less or more across a daylight-saving switch. With the count
  at 3 (or above) the request is refused with \<^verbatim>\<open>Maximum renewal limit reached\<close>, and
  for a loan that is not active with \<^verbatim>\<open>Active transaction not found\<close>; a refused
  request leaves the database unchanged.
\<close>

theorem renew_iff:
  "t \<in> set (transactions db) \<Longrightarrow> distinct (map tid (transactions db)) \<Longrightarrow>
   ((\<exists>t'. fst (renew zone (tid t) now db) = Inr t') \<longleftrightarrow> status t = Active \<and> renewalCount t < 3)
   \<and> (status t = Active \<and> renewalCount t < 3 \<longrightarrow>
        renew zone (tid t) now db =
          (Inr (t\<lparr>renewalCount := renewalCount t + 1, dueDate := addDays zone now 14\<rparr>),
           db\<lparr>transactions :=
                map (\<lambda>x. if x = t
                          then t\<lparr>renewalCount := renewalCount t + 1, dueDate := addDays zone now 14\<rparr>
                          else x) (transactions db)\<rparr>))
   \<and> addDays zone now 14 =
        now + 14 * day_ms
          + (offsetAtUTC zone now - offsetAtLocal zone (now + offsetAtUTC zone now + 14 * day_ms))
   \<and> (offsetAtLocal zone (now + offsetAtUTC zone now + 14 * day_ms) = offsetAtUTC zone now \<longrightarrow>
        addDays zone now 14 = now + 14 * day_ms)
   \<and> (status t = Active \<and> 3 \<le> renewalCount t \<longrightarrow>
        renew zone (tid t) now db = (Inl RenewalLimitReached, db))
   \<and> (status t \<noteq> Active \<longrightarrow> renew zone (tid t) now db = (Inl TransactionNotFound, db))"
proof -
  assume mem: "t \<in> set (transactions db)" and dist: "distinct (map tid (transactions db))"
  have f: "findOne (\<lambda>x. tid x = tid t \<and> status x = Active) (transactions db) =
             (if status t = Active then Some t else None)"
    unfolding findOne_def using dist mem by (rule find_by_id)
  have s: "saveTransaction t' (transactions db) = map (\<lambda>x. if x = t then t' else x) (transactions db)"
    if "tid t' = tid t" for t'
    using dist mem that by (rule saveTransaction_by_id)
  have a: "addDays zone now 14 =
        now + 14 * day_ms
          + (offsetAtUTC zone now - offsetAtLocal zone (now + offsetAtUTC zone now + 14 * day_ms))"
    by (rule addDays_offset)
  then have b: "offsetAtLocal zone (now + offsetAtUTC zone now + 14 * day_ms) = offsetAtUTC zone now \<longrightarrow>
        addDays zone now 14 = now + 14 * day_ms"
    by simp
  have r: "((\<exists>t'. fst (renew zone (tid t) now db) = Inr t') \<longleftrightarrow> status t = Active \<and> renewalCount t < 3)
   \<and> (status t = Active \<and> renewalCount t < 3 \<longrightarrow>
        renew zone (tid t) now db =
          (Inr (t\<lparr>renewalCount := renewalCount t + 1, dueDate := addDays zone now 14\<rparr>),
           db\<lparr>transactions :=
                map (\<lambda>x. if x = t
                          then t\<lparr>renewalCount := renewalCount t + 1, dueDate := addDays zone now 14\<rparr>
                          else x) (transactions db)\<rparr>))
   \<and> (status t = Active \<and> 3 \<le> renewalCount t \<longrightarrow>
        renew zone (tid t) now db = (Inl RenewalLimitReached, db))
   \<and> (status t \<noteq> Active \<longrightarrow> renew zone (tid t) now db = (Inl TransactionNotFound, db))"
    by (simp add: renew_def f s Let_def)
  from r a b show ?thesis by blast
qed

theorem renew_iff_witness:
  "renew utcZone 1 (5 * day_ms) lentDb =
     (Inr (exLoan\<lparr>renewalCount := 1, dueDate := 19 * day_ms\<rparr>),
      lentDb\<lparr>transactions := [exLoan\<lparr>renewalCount := 1, dueDate := 19 * day_ms\<rparr>]\<rparr>)
   \<and> renew utcZone 1 (5 * day_ms) (lentDb\<lparr>transactions := [exLoan\<lparr>renewalCount := 3\<rparr>]\<rparr>) =
       (Inl RenewalLimitReached, lentDb\<lparr>transactions := [exLoan\<lparr>renewalCount := 3\<rparr>]\<rparr>)"
  using renew_iff [where t = exLoan and db = lentDb and now = "5 * day_ms" and zone = utcZone]
    renew_iff [where t = "exLoan\<lparr>renewalCount := 3\<rparr>" and zone = utcZone
      and db = "lentDb\<lparr>transactions := [exLoan\<lparr>renewalCount := 3\<rparr>]\<rparr>"
      and now = "5 * day_ms"]
  by (simp add: lentDb_eq exLoan_def utcZone_def)

text \<open>
  Claim C6 as stated fails on the due date where a daylight-saving switch lies within the
  fourteen days. In US Eastern time a renewal on 1 March 2024 at 12:00 UTC (07:00 local,
  instant 1709294400000) stores the due date 15 March 2024 at 11:00 UTC (07:00 local,
  instant 1710500400000), an hour short of the instant of the renewal plus fourteen days.
\<close>

theorem renew_dueDate_counterexample:
  "transactions lentDb = [exLoan] \<and> status exLoan = Active \<and> renewalCount exLoan = 0
   \<and> fst (renew easternZone 1 1709294400000 lentDb)
        = Inr (exLoan\<lparr>renewalCount := 1, dueDate := 1710500400000\<rparr>)
   \<and> 1709294400000 + 14 * day_ms = 1710504000000"
  by (simp add: lentDb_eq exLoan_def renew_def findOne_def addDays_def localTime_def utcTime_def
      easternZone_def hour_ms_def day_ms_def Let_def)

section \<open>The overdue sweep\<close>

lemma tid_sweepDoc: "tid (sweepDoc c1 c2 t) = tid t"
  by (simp add: sweepDoc_def calculateFine_def checkOverdue_def Let_def)

lemma overdueLoop_Cons:
  "overdueLoop clock k (t # ts) coll =
     (sweepDoc (clock k) (clock (k + 1)) t
        # fst (overdueLoop clock (k + 2) ts
                 (saveTransaction (sweepDoc (clock k) (clock (k + 1)) t) coll)),
      snd (overdueLoop clock (k + 2) ts
             (saveTransaction (sweepDoc (clock k) (clock (k + 1)) t) coll)))"
  by (simp add: sweepDoc_def Let_def)

lemma length_saveTransaction: "length (saveTransaction t coll) = length coll"
  by (simp add: saveTransaction_def)

lemma nth_saveTransaction:
  "i < length coll \<Longrightarrow>
     saveTransaction t coll ! i = (if tid (coll ! i) = tid t then t else coll ! i)"
  by (simp add: saveTransaction_def)

lemma length_overdueLoop_fst: "length (fst (overdueLoop clock k ts coll)) = length ts"
  by (induction ts arbitrary: k coll) (simp_all add: Let_def)

lemma length_overdueLoop: "length (snd (overdueLoop clock k ts coll)) = length coll"
  by (induction ts arbitrary: k coll) (simp_all add: Let_def length_saveTransaction)

lemma overdueLoop_other:
  "i < length coll \<Longrightarrow> tid (coll ! i) \<notin> tid ` set ts \<Longrightarrow>
     snd (overdueLoop clock k ts coll) ! i = coll ! i"
proof (induction ts arbitrary: k coll)
  case Nil
  then show ?case by simp
next
  case (Cons t ts)
  let ?t2 = "sweepDoc (clock k) (clock (k + 1)) t"
  let ?coll = "saveTransaction ?t2 coll"
  from Cons.prems have ne: "tid (coll ! i) \<noteq> tid t" and rest: "tid (coll ! i) \<notin> tid ` set ts"
    by auto
  from Cons.prems(1) ne have same: "?coll ! i = coll ! i"
    by (simp add: nth_saveTransaction tid_sweepDoc)
  have "snd (overdueLoop clock (k + 2) ts ?coll) ! i = ?coll ! i"
    using Cons.prems(1) rest same by (intro Cons.IH) (simp_all add: length_saveTransaction)
  with same show ?case
    by (simp only: overdueLoop_Cons snd_conv)
qed

lemma overdueLoop_found:
  "distinct (map tid ts) \<Longrightarrow> t \<in> set ts \<Longrightarrow> i < length coll \<Longrightarrow> tid (coll ! i) = tid t \<Longrightarrow>
     \<exists>j. snd (overdueLoop clock k ts coll) ! i = sweepDoc (clock (k + j)) (clock (k + j + 1)) t"
proof (induction ts arbitrary: k coll)
  case Nil
  then show ?case by simp
next
  case (Cons h ts)
  let ?h2 = "sweepDoc (clock k) (clock (k + 1)) h"
  let ?coll = "saveTransaction ?h2 coll"
  have len: "i < length ?coll"
    using Cons.prems(3) by (simp add: length_saveTransaction)
  from Cons.prems(1) have nin: "tid h \<notin> tid ` set ts" and dist: "distinct (map tid ts)"
    by simp_all
  show ?case
  proof (cases "t = h")
    case True
    with Cons.prems have at: "?coll ! i = ?h2"
      by (simp add: nth_saveTransaction tid_sweepDoc)
    then have "tid (?coll ! i) \<notin> tid ` set ts"
      using nin by (simp add: tid_sweepDoc)
    with len have "snd (overdueLoop clock (k + 2) ts ?coll) ! i = ?coll ! i"
      by (rule overdueLoop_other)
    with at True have "snd (overdueLoop clock k (h # ts) coll) ! i
        = sweepDoc (clock (k + 0)) (clock (k + 0 + 1)) t"
      by (simp only: overdueLoop_Cons snd_conv add_0_right)
    then show ?thesis by blast
  next
    case False
    with Cons.prems(2) have mem: "t \<in> set ts" by simp
    then have "tid t \<in> tid ` set ts" by (rule imageI)
    with nin have "tid t \<noteq> tid h" by metis
    with Cons.prems have at: "?coll ! i = coll ! i"
      by (simp add: nth_saveTransaction tid_sweepDoc)
    with Cons.prems(4) have "tid (?coll ! i) = tid t" by simp
    from Cons.IH [OF dist mem len this, of "k + 2"] obtain j where
      "snd (overdueLoop clock (k + 2) ts ?coll) ! i
         = sweepDoc (clock (k + 2 + j)) (clock (k + 2 + j + 1)) t"
      by blast
    then have "snd (overdueLoop clock k (h # ts) coll) ! i
        = sweepDoc (clock (k + (2 + j))) (clock (k + (2 + j) + 1)) t"
      by (simp only: overdueLoop_Cons snd_conv add.assoc)
    then show ?thesis by blast
  qed
qed

lemma map_tid_saveTransaction: "map tid (saveTransaction t coll) = map tid coll"
  by (simp add: saveTransaction_def)

lemma map_tid_overdueLoop: "map tid (snd (overdueLoop clock k ts coll)) = map tid coll"
  by (induction ts arbitrary: k coll) (simp_all add: Let_def map_tid_saveTransaction)

lemma sweepDoc_selected:
  "status t = Active \<Longrightarrow> dueDate t < c1 \<Longrightarrow>
     sweepDoc c1 c2 t = snd (calculateFine c2 (t\<lparr>status := Overdue\<rparr>))"
  by (simp add: sweepDoc_def checkOverdue_def)

lemma distinct_map_sort_key:
  "distinct (map f (sort_key g xs)) = distinct (map f xs)"
  by (simp add: distinct_map)


lemma status_calculateFine: "status (snd (calculateFine c t)) = status t"
  by (simp add: calculateFine_def Let_def)

lemma calculateFine_overdue:
  "returnDate t = None \<Longrightarrow> dueDate t < c \<Longrightarrow>
     snd (calculateFine c (t\<lparr>status := Overdue\<rparr>)) =
       t\<lparr>status := Overdue,
         fine := (fine t)\<lparr>amount := fineFormula c (dueDate t), reason := ReasonOverdue\<rparr>\<rparr>"
  by (simp add: calculateFine_def Let_def ceilDiv_pos_iff day_ms_pos fineFormula_late)

lemma fineFormula_one_day: "fineFormula (d + day_ms) d = 1 * 2"
  using ceilDiv_exact [of day_ms 1] day_ms_pos by (simp add: fineFormula_late)

lemma fineFormula_pos: "d < s \<Longrightarrow> 0 < fineFormula s d"
  by (simp add: fineFormula_late ceilDiv_pos_iff day_ms_pos)

lemma ceilDiv_over_a_day: "day_ms < a \<Longrightarrow> 2 \<le> ceilDiv a day_ms"
proof -
  assume "day_ms < a"
  then have "ceilDiv (day_ms + 1) day_ms \<le> ceilDiv a day_ms"
    by (intro ceilDiv_mono day_ms_pos) simp
  moreover have "ceilDiv (day_ms + 1) day_ms = 2"
    by (simp add: ceilDiv_def day_ms_def)
  ultimately show ?thesis by simp
qed

lemma fineFormula_over_a_day: "d + day_ms < s \<Longrightarrow> 2 * 2 \<le> fineFormula s d"
proof -
  assume h: "d + day_ms < s"
  with day_ms_pos have "d < s" by simp
  moreover from h have "2 \<le> ceilDiv (s - d) day_ms"
    by (intro ceilDiv_over_a_day) simp
  ultimately show ?thesis by (simp add: fineFormula_late)
qed

text \<open>
  Claim C7, as amended. Let the readings of the clock not go back, and let identifiers be
  unique. The sweep keeps the books, the students and the identifiers of the transactions
  in place, and counts the loans that are \<^verbatim>\<open>active\<close> with a due date strictly before
  the instant of the query (\<open>clock 0\<close>). Each such loan is stored with status
  \<^verbatim>\<open>overdue\<close> and with the fine \<^verbatim>\<open>calculateFine\<close> computes at its own reading
  \<open>clock k\<close> of the clock, which is not before the query: for a loan without return date
  the amount of the formula at that instant, which is positive, with reason
  \<^verbatim>\<open>overdue\<close>. Every other loan is left unchanged. For a loan due exactly one day
  before the instant of the query the fine is \<open>1 * 2\<close> when the clock still shows that
  instant as the fine is computed, and \<open>2 * 2\<close> or more once the clock has moved on:
  the day that has begun is charged.
\<close>

theorem overdue_sweep:
  assumes clock: "mono clock"
    and dist: "distinct (map tid (transactions db))"
    and i: "i < length (transactions db)"
    and t: "t = transactions db ! i"
    and t': "t' = transactions (snd (overdue clock db)) ! i"
  shows "map tid (transactions (snd (overdue clock db))) = map tid (transactions db)
    \<and> books (snd (overdue clock db)) = books db
    \<and> students (snd (overdue clock db)) = students db
    \<and> fst (fst (overdue clock db)) =
         length (filter (\<lambda>t. status t = Active \<and> dueDate t < clock 0) (transactions db))
    \<and> (status t = Active \<and> dueDate t < clock 0 \<longrightarrow>
         (\<exists>k. clock 0 \<le> clock k
            \<and> t' = snd (calculateFine (clock k) (t\<lparr>status := Overdue\<rparr>))
            \<and> status t' = Overdue
            \<and> (returnDate t = None \<longrightarrow>
                 amount (fine t') = fineFormula (clock k) (dueDate t)
                 \<and> 0 < amount (fine t') \<and> reason (fine t') = ReasonOverdue)
            \<and> (returnDate t = None \<and> clock k = dueDate t + day_ms \<longrightarrow>
                 amount (fine t') = 1 * 2)
            \<and> (returnDate t = None \<and> dueDate t + day_ms < clock k \<longrightarrow>
                 2 * 2 \<le> amount (fine t'))))
    \<and> (\<not> (status t = Active \<and> dueDate t < clock 0) \<longrightarrow> t' = t)
    \<and> (status t = Active \<and> returnDate t = None \<and> dueDate t = clock 0 - day_ms
         \<and> (\<forall>k. clock k = clock 0) \<longrightarrow>
         status t' = Overdue \<and> amount (fine t') = 1 * 2)
    \<and> (status t = Active \<and> returnDate t = None \<and> dueDate t = clock 0 - day_ms
         \<and> (\<forall>k>0. clock 0 < clock k) \<longrightarrow>
         status t' = Overdue \<and> 2 * 2 \<le> amount (fine t'))"
proof -
  let ?P = "\<lambda>t. status t = Active \<and> dueDate t < clock 0"
  let ?txs = "transactions db"
  let ?sel = "sort_key dueDate (filter ?P ?txs)"
  let ?r = "overdueLoop clock 1 ?sel ?txs"
  have db': "snd (overdue clock db) = db\<lparr>transactions := snd ?r\<rparr>"
    and cnt: "fst (fst (overdue clock db)) = length (fst ?r)"
    by (simp_all add: overdue_def Let_def)
  have t'_eq: "t' = snd ?r ! i"
    using t' db' by simp
  have tmem: "t \<in> set ?txs"
    using i t by simp
  have inj: "inj_on tid (set ?txs)"
    using dist by (simp add: distinct_map)
  have dsel: "distinct (map tid ?sel)"
    using dist by (simp add: distinct_map_sort_key distinct_map_filter)
  have a: "map tid (transactions (snd (overdue clock db))) = map tid ?txs"
    by (simp add: db' map_tid_overdueLoop)
  have b: "books (snd (overdue clock db)) = books db" "students (snd (overdue clock db)) = students db"
    by (simp_all add: db')
  have c: "fst (fst (overdue clock db)) = length (filter ?P ?txs)"
    by (simp add: cnt length_overdueLoop_fst)
  have later: "clock 0 \<le> clock k" for k
    using clock by (simp add: monoD)
  have d0: "\<exists>j. t' = snd (calculateFine (clock (1 + j + 1)) (t\<lparr>status := Overdue\<rparr>))"
    if sel: "status t = Active \<and> dueDate t < clock 0"
  proof -
    from sel tmem have "t \<in> set ?sel" by simp
    from overdueLoop_found [OF dsel this i, of clock 1] t obtain j where
      j: "snd ?r ! i = sweepDoc (clock (1 + j)) (clock (1 + j + 1)) t"
      by auto
    have "dueDate t < clock (1 + j)"
      using sel later [of "1 + j"] by simp
    with j t'_eq sel have "t' = snd (calculateFine (clock (1 + j + 1)) (t\<lparr>status := Overdue\<rparr>))"
      by (simp add: sweepDoc_selected)
    then show ?thesis by (rule exI)
  qed
  have d1: "clock 0 \<le> clock k
            \<and> t' = snd (calculateFine (clock k) (t\<lparr>status := Overdue\<rparr>))
            \<and> status t' = Overdue
            \<and> (returnDate t = None \<longrightarrow>
                 amount (fine t') = fineFormula (clock k) (dueDate t)
                 \<and> 0 < amount (fine t') \<and> reason (fine t') = ReasonOverdue)
            \<and> (returnDate t = None \<and> clock k = dueDate t + day_ms \<longrightarrow>
                 amount (fine t') = 1 * 2)
            \<and> (returnDate t = None \<and> dueDate t + day_ms < clock k \<longrightarrow>
                 2 * 2 \<le> amount (fine t'))"
    if sel: "status t = Active \<and> dueDate t < clock 0"
      and eq: "t' = snd (calculateFine (clock k) (t\<lparr>status := Overdue\<rparr>))" for k
  proof -
    have due: "dueDate t < clock k"
      using sel later [of k] by simp
    have st: "status t' = Overdue"
      unfolding eq by (simp add: status_calculateFine)
    have f: "t' = t\<lparr>status := Overdue,
         fine := (fine t)\<lparr>amount := fineFormula (clock k) (dueDate t), reason := ReasonOverdue\<rparr>\<rparr>"
      if "returnDate t = None"
      unfolding eq using that due by (rule calculateFine_overdue)
    have f1: "returnDate t = None \<longrightarrow>
        amount (fine t') = fineFormula (clock k) (dueDate t)
        \<and> 0 < amount (fine t') \<and> reason (fine t') = ReasonOverdue"
      using f fineFormula_pos [OF due] by simp
    have f2: "returnDate t = None \<and> clock k = dueDate t + day_ms \<longrightarrow>
        amount (fine t') = 1 * 2"
      using f1 fineFormula_one_day [of "dueDate t"] by simp
    have f3: "returnDate t = None \<and> dueDate t + day_ms < clock k \<longrightarrow>
        2 * 2 \<le> amount (fine t')"
      using f1 fineFormula_over_a_day [of "dueDate t" "clock k"] by simp
    show ?thesis
      by (rule conjI [OF later conjI [OF eq conjI [OF st conjI [OF f1 conjI [OF f2 f3]]]]])
  qed
  have d: "\<exists>k. clock 0 \<le> clock k
            \<and> t' = snd (calculateFine (clock k) (t\<lparr>status := Overdue\<rparr>))
            \<and> status t' = Overdue
            \<and> (returnDate t = None \<longrightarrow>
                 amount (fine t') = fineFormula (clock k) (dueDate t)
                 \<and> 0 < amount (fine t') \<and> reason (fine t') = ReasonOverdue)
            \<and> (returnDate t = None \<and> clock k = dueDate t + day_ms \<longrightarrow>
                 amount (fine t') = 1 * 2)
            \<and> (returnDate t = None \<and> dueDate t + day_ms < clock k \<longrightarrow>
                 2 * 2 \<le> amount (fine t'))"
    if sel: "status t = Active \<and> dueDate t < clock 0"
  proof -
    from d0 [OF sel] obtain j where
      "t' = snd (calculateFine (clock (1 + j + 1)) (t\<lparr>status := Overdue\<rparr>))"
      by blast
    from d1 [OF sel this] show ?thesis by (rule exI)
  qed
  have e: "t' = t" if "\<not> (status t = Active \<and> dueDate t < clock 0)"
  proof -
    have "tid t \<notin> tid ` set ?sel"
    proof
      assume "tid t \<in> tid ` set ?sel"
      then obtain x where x: "x \<in> set ?sel" "tid x = tid t" by auto
      then have "x \<in> set ?txs" "?P x" by simp_all
      with inj tmem x(2) have "x = t" by (simp add: inj_on_def)
      with \<open>?P x\<close> that show False by simp
    qed
    with i t have "snd ?r ! i = ?txs ! i"
      by (intro overdueLoop_other) simp_all
    with t t'_eq show ?thesis by simp
  qed
  have f: "status t' = Overdue \<and> amount (fine t') = 1 * 2"
    if h: "status t = Active \<and> returnDate t = None \<and> dueDate t = clock 0 - day_ms
         \<and> (\<forall>k. clock k = clock 0)"
  proof -
    from h day_ms_pos have sel: "status t = Active \<and> dueDate t < clock 0" by simp
    from d0 [OF sel] obtain j where
      eq: "t' = snd (calculateFine (clock (1 + j + 1)) (t\<lparr>status := Overdue\<rparr>))"
      by blast
    from h have "clock (1 + j + 1) = dueDate t + day_ms" by simp
    with d1 [OF sel eq] h show ?thesis by blast
  qed
  have g: "status t' = Overdue \<and> 2 * 2 \<le> amount (fine t')"
    if h: "status t = Active \<and> returnDate t = None \<and> dueDate t = clock 0 - day_ms
         \<and> (\<forall>k>0. clock 0 < clock k)"
  proof -
    from h day_ms_pos have sel: "status t = Active \<and> dueDate t < clock 0" by simp
    from d0 [OF sel] obtain j where
      eq: "t' = snd (calculateFine (clock (1 + j + 1)) (t\<lparr>status := Overdue\<rparr>))"
      by blast
    from h have "clock 0 < clock (1 + j + 1)" by simp
    with h have "dueDate t + day_ms < clock (1 + j + 1)" by simp
    with d1 [OF sel eq] h show ?thesis by blast
  qed
  from a b c d e f g show ?thesis by blast
qed

theorem overdue_sweep_witness:
  "status (transactions (snd (overdue (constClock (15 * day_ms)) lentDb)) ! 0) = Overdue
   \<and> amount (fine (transactions (snd (overdue (constClock (15 * day_ms)) lentDb)) ! 0)) = 1 * 2
   \<and> transactions (snd (overdue (constClock (5 * day_ms)) lentDb)) ! 0 = exLoan
   \<and> 2 * 2 \<le> amount (fine (transactions (snd (overdue (tickingClock (15 * day_ms)) lentDb)) ! 0))"
proof -
  have m: "mono (constClock c)" for c
    by (simp add: mono_def constClock_def)
  have mt: "mono (tickingClock c)" for c
    by (simp add: mono_def tickingClock_def)
  have d: "distinct (map tid (transactions lentDb))"
    by (simp add: lentDb_eq)
  have i: "0 < length (transactions lentDb)"
    by (simp add: lentDb_eq)
  have t: "exLoan = transactions lentDb ! 0"
    by (simp add: lentDb_eq)
  note sweep = overdue_sweep [OF m d i t refl]
  note ticking = overdue_sweep [OF mt d i t refl]
  have due: "status exLoan = Active \<and> returnDate exLoan = None
      \<and> dueDate exLoan = constClock (15 * day_ms) 0 - day_ms
      \<and> (\<forall>k. constClock (15 * day_ms) k = constClock (15 * day_ms) 0)"
    by (simp add: exLoan_def constClock_def)
  have not_due: "\<not> (status exLoan = Active \<and> dueDate exLoan < constClock (5 * day_ms) 0)"
    by (simp add: exLoan_def constClock_def day_ms_def)
  have late: "status exLoan = Active \<and> returnDate exLoan = None
      \<and> dueDate exLoan = tickingClock (15 * day_ms) 0 - day_ms
      \<and> (\<forall>k>0. tickingClock (15 * day_ms) 0 < tickingClock (15 * day_ms) k)"
    by (simp add: exLoan_def tickingClock_def)
  from sweep [of "15 * day_ms"] due
  have a: "status (transactions (snd (overdue (constClock (15 * day_ms)) lentDb)) ! 0) = Overdue
      \<and> amount (fine (transactions (snd (overdue (constClock (15 * day_ms)) lentDb)) ! 0)) = 1 * 2"
    by blast
  from sweep [of "5 * day_ms"] not_due
  have b: "transactions (snd (overdue (constClock (5 * day_ms)) lentDb)) ! 0 = exLoan"
    by blast
  from ticking [of "15 * day_ms"] late
  have c: "2 * 2 \<le> amount (fine (transactions (snd (overdue (tickingClock (15 * day_ms)) lentDb)) ! 0))"
    by blast
  from a b c show ?thesis by blast
qed

text \<open>
  Claim C7 as stated fails on the fine of a loan due exactly one day before the sweep when
  the clock moves on during the request. The loan of the example library is due on day 14;
  the sweep queries on day 15 and the clock shows one millisecond more when
  \<^verbatim>\<open>checkOverdue\<close> and \<^verbatim>\<open>calculateFine\<close> read it: the loan is stored
  \<^verbatim>\<open>overdue\<close> with a fine of 4, twice the daily rate.
\<close>

theorem overdue_sweep_counterexample:
  "transactions lentDb = [exLoan] \<and> status exLoan = Active \<and> returnDate exLoan = None
   \<and> dueDate exLoan = tickingClock (15 * day_ms) 0 - day_ms
   \<and> mono (tickingClock (15 * day_ms))
   \<and> status (transactions (snd (overdue (tickingClock (15 * day_ms)) lentDb)) ! 0) = Overdue
   \<and> amount (fine (transactions (snd (overdue (tickingClock (15 * day_ms)) lentDb)) ! 0)) = 4"
  by (simp add: lentDb_eq exLoan_def overdue_def tickingClock_def mono_def checkOverdue_def
      calculateFine_def saveTransaction_def ceilDiv_def day_ms_def Let_def)

section \<open>The copies of a title\<close>

lemma handle_book:
  assumes "books db i = Some b" "0 \<le> availableCopies b" "availableCopies b \<le> totalCopies b"
  shows "\<exists>b'. books (handle zone r db) i = Some b' \<and> totalCopies b' = totalCopies b
        \<and> 0 \<le> availableCopies b' \<and> availableCopies b' \<le> totalCopies b'"
proof (cases r)
  case (Issue bookId studentId reqNotes user now)
  with assms show ?thesis
    by (auto simp add: issue_def bookSaveOk_def Let_def split: option.splits)
next
  case (Return transactionId reqNotes now)
  with assms show ?thesis
    by (auto simp add: returnBook_def bookSaveOk_def Let_def split: option.splits)
next
  case (Renew transactionId now)
  with assms show ?thesis
    by (auto simp add: renew_def Let_def split: option.splits)
next
  case (OverdueSweep clock)
  with assms show ?thesis
    by (simp add: overdue_def Let_def)
qed

text \<open>
  Claim C4. Take a title whose available copies lie between 0 and its total copies. After
  any sequence of issue and return requests (and of renew requests and overdue sweeps) the
  title is still there, its total unchanged, and its available copies still lie between 0
  and the total. The sequences range over all lists of requests, so the bound holds after
  every request of a sequence.
\<close>

theorem availableCopies_bounds:
  "books db i = Some b \<Longrightarrow> 0 \<le> availableCopies b \<Longrightarrow> availableCopies b \<le> totalCopies b \<Longrightarrow>
   \<exists>b'. books (run zone rs db) i = Some b' \<and> totalCopies b' = totalCopies b
        \<and> 0 \<le> availableCopies b' \<and> availableCopies b' \<le> totalCopies b'"
proof (induction rs arbitrary: db b)
  case Nil
  then show ?case by simp
next
  case (Cons r rs)
  from handle_book [OF Cons.prems, where r = r and zone = zone] obtain b1 where
    b1: "books (handle zone r db) i = Some b1" "totalCopies b1 = totalCopies b"
      "0 \<le> availableCopies b1" "availableCopies b1 \<le> totalCopies b1"
    by blast
  from Cons.IH [OF b1(1) b1(3) b1(4)] b1(2) show ?case by simp
qed

theorem availableCopies_bounds_witness:
  "\<exists>b'. books (run utcZone [Issue 1 1 None 9 0, Return 1 None day_ms, Return 1 None day_ms] exDb) 1 = Some b'
      \<and> totalCopies b' = totalCopies exBook
      \<and> 0 \<le> availableCopies b' \<and> availableCopies b' \<le> totalCopies b'"
  using availableCopies_bounds [where db = exDb and i = 1 and b = exBook and zone = utcZone
      and rs = "[Issue 1 1 None 9 0, Return 1 None day_ms, Return 1 None day_ms]"]
  by (simp add: exDb_def exBook_def)


section \<open>Requests on consistent states\<close>

text \<open>Identifiers stay unique under every request.\<close>

lemma fold_max_ge: "(m::nat) \<le> fold max xs m"
  by (induction xs arbitrary: m) (auto intro: order_trans [OF max.cobounded2])

lemma fold_max_mem: "x \<in> set xs \<Longrightarrow> (x::nat) \<le> fold max xs m"
proof (induction xs arbitrary: m)
  case Nil
  then show ?case by simp
next
  case (Cons y ys)
  show ?case
  proof (cases "x = y")
    case True
    have "x \<le> max y m" using True by simp
    also have "\<dots> \<le> fold max ys (max y m)" by (rule fold_max_ge)
    finally show ?thesis by simp
  next
    case False
    with Cons.prems have "x \<in> set ys" by simp
    then show ?thesis using Cons.IH by simp
  qed
qed

lemma newObjectId_fresh: "newObjectId coll \<notin> tid ` set coll"
proof
  assume "newObjectId coll \<in> tid ` set coll"
  then have "newObjectId coll \<in> set (map tid coll)" by simp
  then have "newObjectId coll \<le> fold max (map tid coll) 0" by (rule fold_max_mem)
  then show False by (simp add: newObjectId_def)
qed

lemma distinct_tid_handle:
  assumes "distinct (map tid (transactions db))"
  shows "distinct (map tid (transactions (handle zone r db)))"
proof (cases r)
  case (Issue bookId studentId reqNotes user now)
  with assms newObjectId_fresh [of "transactions db"] show ?thesis
    by (auto simp add: issue_def Let_def split: option.splits)
next
  case (Return transactionId reqNotes now)
  with assms show ?thesis
    by (auto simp add: returnBook_def Let_def map_tid_saveTransaction split: option.splits)
next
  case (Renew transactionId now)
  with assms show ?thesis
    by (auto simp add: renew_def Let_def map_tid_saveTransaction split: option.splits)
next
  case (OverdueSweep clock)
  with assms show ?thesis
    by (simp add: overdue_def Let_def map_tid_overdueLoop)
qed

lemma distinct_tid_run:
  "distinct (map tid (transactions db)) \<Longrightarrow> distinct (map tid (transactions (run zone rs db)))"
  by (induction rs arbitrary: db) (simp_all add: distinct_tid_handle)

text \<open>
  The return of an active loan whose book has a copy out and whose student's counter is
  positive: the loan is stored as returned at \<open>now\<close> with the fine of the formula for
  that return date (a late return) or the fine it carried (a return in time), the copy
  goes back and the counter goes down by one.
\<close>

lemma returnBook_active:
  assumes mem: "t \<in> set (transactions db)" and dist: "distinct (map tid (transactions db))"
    and act: "status t = Active"
    and nok: "notesValid reqNotes"
    and bk: "books db (book t) = Some b" "0 \<le> availableCopies b" "availableCopies b < totalCopies b"
    and st: "students db (student t) = Some s" "0 < currentBooksIssued s"
    and t': "t' = snd (calculateFine now (t\<lparr>txType := TypeReturn, returnDate := Some now,
                status := Returned, txNotes := orNotes reqNotes (txNotes t)\<rparr>))"
  shows "returnBook (tid t) reqNotes now db =
           (Inr t',
            db\<lparr>transactions := map (\<lambda>x. if x = t then t' else x) (transactions db),
               books := (books db)(book t \<mapsto> b\<lparr>availableCopies := availableCopies b + 1\<rparr>),
               students := (students db)(student t \<mapsto>
                  s\<lparr>currentBooksIssued := currentBooksIssued s - 1\<rparr>)\<rparr>)"
    and "returnDate t' = Some now" and "status t' = Returned"
    and "amount (fine t') = (if dueDate t < now then fineFormula now (dueDate t) else amount (fine t))"
proof -
  have f: "findOne (\<lambda>x. tid x = tid t \<and> status x = Active) (transactions db) = Some t"
    unfolding findOne_def using find_by_id [OF dist mem, of "\<lambda>x. status x = Active"] act by simp
  have same: "tid t' = tid t" "book t' = book t" "student t' = student t"
    "txNotes t' = orNotes reqNotes (txNotes t)"
    unfolding t' by (simp_all add: calculateFine_def Let_def)
  have sv: "saveTransaction t' (transactions db) = map (\<lambda>x. if x = t then t' else x) (transactions db)"
    using dist mem same(1) by (rule saveTransaction_by_id)
  have nv: "txNotes t' \<noteq> txNotes t \<longrightarrow> notesValid (txNotes t')"
    using nok unfolding same(4) by (auto simp add: orNotes_def split: option.splits)
  show "returnBook (tid t) reqNotes now db =
           (Inr t',
            db\<lparr>transactions := map (\<lambda>x. if x = t then t' else x) (transactions db),
               books := (books db)(book t \<mapsto> b\<lparr>availableCopies := availableCopies b + 1\<rparr>),
               students := (students db)(student t \<mapsto>
                  s\<lparr>currentBooksIssued := currentBooksIssued s - 1\<rparr>)\<rparr>)"
    using nv bk st by (auto simp add: returnBook_def f Let_def t' [symmetric] same sv bookSaveOk_def)
  show "returnDate t' = Some now" "status t' = Returned"
    unfolding t' by (simp_all add: calculateFine_def Let_def)
  show "amount (fine t') = (if dueDate t < now then fineFormula now (dueDate t) else amount (fine t))"
    unfolding t' by (simp add: calculateFine_amount settlementDate_def fineFormula_late)
qed

lemma activeLoans_append:
  "activeLoans ref i (coll @ [t]) =
     activeLoans ref i coll + (if ref t = i \<and> status t = Active then 1 else 0)"
  by (simp add: activeLoans_def countDocuments_def)

lemma count_replace:
  "distinct xs \<Longrightarrow> t \<in> set xs \<Longrightarrow>
     int (length (filter P (map (\<lambda>x. if x = t then t' else x) xs))) =
       int (length (filter P xs)) - (if P t then 1 else 0) + (if P t' then 1 else 0)"
proof (induction xs)
  case Nil
  then show ?case by simp
next
  case (Cons x xs)
  show ?case
  proof (cases "x = t")
    case True
    with Cons.prems have "t \<notin> set xs" by simp
    then have "map (\<lambda>x. if x = t then t' else x) xs = xs"
      by (induction xs) auto
    with True show ?thesis by simp
  next
    case False
    with Cons.prems have "distinct xs" "t \<in> set xs" by simp_all
    then have "int (length (filter P (map (\<lambda>x. if x = t then t' else x) xs))) =
       int (length (filter P xs)) - (if P t then 1 else 0) + (if P t' then 1 else 0)"
      by (rule Cons.IH)
    moreover have "filter P (map (\<lambda>x. if x = t then t' else x) (x # xs)) =
        (if P x then [x] else []) @ filter P (map (\<lambda>x. if x = t then t' else x) xs)"
      using False by simp
    moreover have "filter P (x # xs) = (if P x then [x] else []) @ filter P xs"
      by simp
    ultimately show ?thesis
      by (simp only: length_append of_nat_add)
  qed
qed

lemma activeLoans_save:
  assumes "distinct (map tid coll)" "t \<in> set coll" "tid t' = tid t"
  shows "activeLoans ref i (saveTransaction t' coll) =
     activeLoans ref i coll - (if ref t = i \<and> status t = Active then 1 else 0)
       + (if ref t' = i \<and> status t' = Active then 1 else 0)"
proof -
  from assms(1) have "distinct coll" by (simp add: distinct_map)
  from count_replace [OF this assms(2), of "\<lambda>t. ref t = i \<and> status t = Active" t']
  show ?thesis
    by (simp add: activeLoans_def countDocuments_def saveTransaction_by_id [OF assms])
qed

lemma activeLoans_nonneg: "0 \<le> activeLoans ref i coll"
  by (simp add: activeLoans_def countDocuments_def)

lemma activeLoans_pos:
  "t \<in> set coll \<Longrightarrow> ref t = i \<Longrightarrow> status t = Active \<Longrightarrow> 1 \<le> activeLoans ref i coll"
proof -
  assume "t \<in> set coll" "ref t = i" "status t = Active"
  then have "t \<in> set (filter (\<lambda>t. ref t = i \<and> status t = Active) coll)" by simp
  then have "0 < length (filter (\<lambda>t. ref t = i \<and> status t = Active) coll)"
    by (rule length_pos_if_in_set)
  then have "1 \<le> int (length (filter (\<lambda>t. ref t = i \<and> status t = Active) coll))"
    by linarith
  then show ?thesis by (simp only: activeLoans_def countDocuments_def)
qed

lemma findOne_Some:
  "findOne P coll = Some t \<Longrightarrow> t \<in> set coll \<and> P t"
  by (auto simp add: findOne_def find_Some_iff)

lemma consistent_distinct: "consistent db \<Longrightarrow> distinct (map tid (transactions db))"
  by (simp add: consistent_def)

lemma consistent_student:
  "consistent db \<Longrightarrow> students db sid = Some s \<Longrightarrow>
     currentBooksIssued s = activeLoans student sid (transactions db)
     \<and> currentBooksIssued s \<le> maxBooksAllowed s"
  unfolding consistent_def by blast

lemma consistent_bookless:
  "consistent db \<Longrightarrow> books db bid = None \<Longrightarrow> activeLoans book bid (transactions db) = 0"
  unfolding consistent_def by (auto dest!: spec [of _ bid])

lemma consistent_book:
  "consistent db \<Longrightarrow> books db bid = Some b \<Longrightarrow>
     0 \<le> availableCopies b
     \<and> availableCopies b + activeLoans book bid (transactions db) \<le> totalCopies b"
  unfolding consistent_def by (auto dest!: spec [of _ bid])

lemma consistentI:
  assumes "distinct (map tid (transactions db))"
    and "\<And>sid s. students db sid = Some s \<Longrightarrow>
           currentBooksIssued s = activeLoans student sid (transactions db)
           \<and> currentBooksIssued s \<le> maxBooksAllowed s"
    and "\<And>bid. books db bid = None \<Longrightarrow> activeLoans book bid (transactions db) = 0"
    and "\<And>bid b. books db bid = Some b \<Longrightarrow> 0 \<le> availableCopies b
           \<and> availableCopies b + activeLoans book bid (transactions db) \<le> totalCopies b"
  shows "consistent db"
  unfolding consistent_def
proof (intro conjI allI impI)
  show "distinct (map tid (transactions db))" by (rule assms(1))
next
  fix sid s
  assume "students db sid = Some s"
  then show "currentBooksIssued s = activeLoans student sid (transactions db)"
    and "currentBooksIssued s \<le> maxBooksAllowed s"
    using assms(2) by blast+
next
  fix bid
  show "case books db bid of
          None \<Rightarrow> activeLoans book bid (transactions db) = 0
        | Some b \<Rightarrow> 0 \<le> availableCopies b
            \<and> availableCopies b + activeLoans book bid (transactions db) \<le> totalCopies b"
    using assms(3,4) by (cases "books db bid") simp_all
qed

lemma issue_result:
  "snd (issue zone bookId studentId reqNotes user now db) = db \<or>
   (\<exists>b s. books db bookId = Some b \<and> 0 < availableCopies b \<and> students db studentId = Some s
      \<and> activeLoans student studentId (transactions db) < maxBooksAllowed s
      \<and> snd (issue zone bookId studentId reqNotes user now db) =
          (if bookSaveOk (b\<lparr>availableCopies := availableCopies b - 1\<rparr>)
           then db\<lparr>transactions := transactions db @
                   [\<lparr>tid = newObjectId (transactions db), book = bookId, student = studentId,
                     txType = TypeIssue, issueDate = now, dueDate = addDays zone now 14,
                     returnDate = None, status = Active,
                     fine = \<lparr>amount = 0, reason = ReasonNone, paid = False, paidDate = None\<rparr>,
                     renewalCount = 0, txNotes = reqNotes, processedBy = user\<rparr>],
                  books := (books db)(bookId \<mapsto> b\<lparr>availableCopies := availableCopies b - 1\<rparr>),
                  students := (students db)(studentId \<mapsto>
                    s\<lparr>currentBooksIssued := currentBooksIssued s + 1\<rparr>)\<rparr>
           else db\<lparr>transactions := transactions db @
                   [\<lparr>tid = newObjectId (transactions db), book = bookId, student = studentId,
                     txType = TypeIssue, issueDate = now, dueDate = addDays zone now 14,
                     returnDate = None, status = Active,
                     fine = \<lparr>amount = 0, reason = ReasonNone, paid = False, paidDate = None\<rparr>,
                     renewalCount = 0, txNotes = reqNotes, processedBy = user\<rparr>]\<rparr>))"
  by (cases "books db bookId"; cases "students db studentId")
     (simp_all add: issue_def activeLoans_def Let_def)

lemma consistent_issue:
  assumes c: "consistent db"
  shows "consistent (snd (issue zone bookId studentId reqNotes user now db))"
proof -
  let ?txs = "transactions db"
  let ?t = "\<lparr>tid = newObjectId ?txs, book = bookId, student = studentId, txType = TypeIssue,
      issueDate = now, dueDate = addDays zone now 14, returnDate = None, status = Active,
      fine = \<lparr>amount = 0, reason = ReasonNone, paid = False, paidDate = None\<rparr>,
      renewalCount = 0, txNotes = reqNotes, processedBy = user\<rparr>"
  from issue_result [of zone bookId studentId reqNotes user now db]
  show ?thesis
  proof
    assume "snd (issue zone bookId studentId reqNotes user now db) = db"
    with c show ?thesis by simp
  next
    assume "\<exists>b s. books db bookId = Some b \<and> 0 < availableCopies b \<and> students db studentId = Some s
      \<and> activeLoans student studentId (transactions db) < maxBooksAllowed s
      \<and> snd (issue zone bookId studentId reqNotes user now db) =
          (if bookSaveOk (b\<lparr>availableCopies := availableCopies b - 1\<rparr>)
           then db\<lparr>transactions := ?txs @ [?t],
                  books := (books db)(bookId \<mapsto> b\<lparr>availableCopies := availableCopies b - 1\<rparr>),
                  students := (students db)(studentId \<mapsto>
                    s\<lparr>currentBooksIssued := currentBooksIssued s + 1\<rparr>)\<rparr>
           else db\<lparr>transactions := ?txs @ [?t]\<rparr>)"
    then obtain b s where b: "books db bookId = Some b" "0 < availableCopies b"
      and s: "students db studentId = Some s"
      and lim: "activeLoans student studentId ?txs < maxBooksAllowed s"
      and r: "snd (issue zone bookId studentId reqNotes user now db) =
          (if bookSaveOk (b\<lparr>availableCopies := availableCopies b - 1\<rparr>)
           then db\<lparr>transactions := ?txs @ [?t],
                  books := (books db)(bookId \<mapsto> b\<lparr>availableCopies := availableCopies b - 1\<rparr>),
                  students := (students db)(studentId \<mapsto>
                    s\<lparr>currentBooksIssued := currentBooksIssued s + 1\<rparr>)\<rparr>
           else db\<lparr>transactions := ?txs @ [?t]\<rparr>)"
      by blast
    from consistent_book [OF c b(1)] have bc: "0 \<le> availableCopies b"
      "availableCopies b + activeLoans book bookId ?txs \<le> totalCopies b"
      by simp_all
    have ok: "bookSaveOk (b\<lparr>availableCopies := availableCopies b - 1\<rparr>)"
      using b(2) bc activeLoans_nonneg [of book bookId ?txs] by (simp add: bookSaveOk_def)
    let ?db' = "db\<lparr>transactions := ?txs @ [?t],
           books := (books db)(bookId \<mapsto> b\<lparr>availableCopies := availableCopies b - 1\<rparr>),
           students := (students db)(studentId \<mapsto>
             s\<lparr>currentBooksIssued := currentBooksIssued s + 1\<rparr>)\<rparr>"
    have res: "snd (issue zone bookId studentId reqNotes user now db) = ?db'"
      using r ok by simp
    have "consistent ?db'"
    proof (rule consistentI)
      show "distinct (map tid (transactions ?db'))"
        using consistent_distinct [OF c] newObjectId_fresh [of ?txs] by simp
    next
      fix sid s'
      assume a: "students ?db' sid = Some s'"
      show "currentBooksIssued s' = activeLoans student sid (transactions ?db')
           \<and> currentBooksIssued s' \<le> maxBooksAllowed s'"
      proof (cases "sid = studentId")
        case True
        with a have "s' = s\<lparr>currentBooksIssued := currentBooksIssued s + 1\<rparr>" by simp
        with consistent_student [OF c s] lim True show ?thesis
          by (simp add: activeLoans_append)
      next
        case False
        with a have "students db sid = Some s'" by simp
        from consistent_student [OF c this] False show ?thesis
          by (simp add: activeLoans_append)
      qed
    next
      fix bid
      assume a: "books ?db' bid = None"
      then have ne: "bid \<noteq> bookId" and "books db bid = None"
        by (auto split: if_splits)
      from consistent_bookless [OF c this(2)] ne
      show "activeLoans book bid (transactions ?db') = 0"
        by (simp add: activeLoans_append)
    next
      fix bid b'
      assume a: "books ?db' bid = Some b'"
      show "0 \<le> availableCopies b'
           \<and> availableCopies b' + activeLoans book bid (transactions ?db') \<le> totalCopies b'"
      proof (cases "bid = bookId")
        case True
        with a have "b' = b\<lparr>availableCopies := availableCopies b - 1\<rparr>" by simp
        with True b(2) bc show ?thesis by (simp add: activeLoans_append)
      next
        case False
        with a have "books db bid = Some b'" by simp
        from consistent_book [OF c this] False show ?thesis
          by (simp add: activeLoans_append)
      qed
    qed
    with res show ?thesis by simp
  qed
qed

lemma consistent_renew:
  assumes c: "consistent db"
  shows "consistent (snd (renew zone transactionId now db))"
proof (cases "findOne (\<lambda>t. tid t = transactionId \<and> status t = Active) (transactions db)")
  case None
  with c show ?thesis by (simp add: renew_def)
next
  case (Some t)
  from findOne_Some [OF Some] have mem: "t \<in> set (transactions db)" by simp
  let ?t' = "t\<lparr>renewalCount := renewalCount t + 1, dueDate := addDays zone now 14\<rparr>"
  have cnt: "activeLoans ref i (saveTransaction ?t' (transactions db))
      = activeLoans ref i (transactions db)" if "ref ?t' = ref t" for ref i
    using activeLoans_save [OF consistent_distinct [OF c] mem, of ?t' ref i] that by simp
  have "consistent (db\<lparr>transactions := saveTransaction ?t' (transactions db)\<rparr>)"
  proof (rule consistentI)
    show "distinct (map tid (transactions (db\<lparr>transactions := saveTransaction ?t' (transactions db)\<rparr>)))"
      using consistent_distinct [OF c] by (simp add: map_tid_saveTransaction)
  next
    fix sid s
    assume "students (db\<lparr>transactions := saveTransaction ?t' (transactions db)\<rparr>) sid = Some s"
    then have "students db sid = Some s" by simp
    from consistent_student [OF c this]
    show "currentBooksIssued s = activeLoans student sid
            (transactions (db\<lparr>transactions := saveTransaction ?t' (transactions db)\<rparr>))
         \<and> currentBooksIssued s \<le> maxBooksAllowed s"
      by (simp add: cnt)
  next
    fix bid
    assume "books (db\<lparr>transactions := saveTransaction ?t' (transactions db)\<rparr>) bid = None"
    then have "books db bid = None" by simp
    from consistent_bookless [OF c this]
    show "activeLoans book bid
            (transactions (db\<lparr>transactions := saveTransaction ?t' (transactions db)\<rparr>)) = 0"
      by (simp add: cnt)
  next
    fix bid b
    assume "books (db\<lparr>transactions := saveTransaction ?t' (transactions db)\<rparr>) bid = Some b"
    then have "books db bid = Some b" by simp
    from consistent_book [OF c this]
    show "0 \<le> availableCopies b \<and> availableCopies b + activeLoans book bid
            (transactions (db\<lparr>transactions := saveTransaction ?t' (transactions db)\<rparr>))
          \<le> totalCopies b"
      by (simp add: cnt)
  qed
  with c Some show ?thesis
    by (simp add: renew_def Let_def)
qed

lemma consistent_returnBook:
  assumes c: "consistent db"
  shows "consistent (snd (returnBook transactionId reqNotes now db))"
proof (cases "findOne (\<lambda>t. tid t = transactionId \<and> status t = Active) (transactions db)")
  case None
  with c show ?thesis by (simp add: returnBook_def)
next
  case (Some t)
  let ?txs = "transactions db"
  from findOne_Some [OF Some] have mem: "t \<in> set ?txs" and act: "status t = Active"
    by simp_all
  let ?t2 = "snd (calculateFine now (t\<lparr>txType := TypeReturn, returnDate := Some now,
      status := Returned, txNotes := orNotes reqNotes (txNotes t)\<rparr>))"
  have same: "tid ?t2 = tid t" "book ?t2 = book t" "student ?t2 = student t"
    "status ?t2 = Returned"
    by (simp_all add: calculateFine_def Let_def)
  have cnt: "activeLoans ref i (saveTransaction ?t2 ?txs)
      = activeLoans ref i ?txs - (if ref t = i then 1 else 0)" for ref i
    using activeLoans_save [OF consistent_distinct [OF c] mem same(1), of ref i] act same(4)
    by simp
  have "1 \<le> activeLoans book (book t) ?txs"
    using mem refl act by (rule activeLoans_pos)
  with consistent_bookless [OF c, of "book t"] obtain b where b: "books db (book t) = Some b"
    by (cases "books db (book t)") auto
  from consistent_book [OF c b] \<open>1 \<le> activeLoans book (book t) ?txs\<close>
  have bc: "0 \<le> availableCopies b" "availableCopies b + 1 \<le> totalCopies b"
    by simp_all
  then have ok: "bookSaveOk (b\<lparr>availableCopies := availableCopies b + 1\<rparr>)"
    by (simp add: bookSaveOk_def)
  have spos: "0 < currentBooksIssued s" if "students db (student t) = Some s" for s
    using consistent_student [OF c that] activeLoans_pos [OF mem refl act, of student] by simp
  let ?db2 = "db\<lparr>transactions := saveTransaction ?t2 ?txs,
      books := (books db)(book t \<mapsto> b\<lparr>availableCopies := availableCopies b + 1\<rparr>)\<rparr>"
  let ?db3 = "\<lambda>s. ?db2\<lparr>students := (students db)(student t \<mapsto>
      s\<lparr>currentBooksIssued := currentBooksIssued s - 1\<rparr>)\<rparr>"
  have res: "snd (returnBook transactionId reqNotes now db) = db
      \<or> (students db (student t) = None \<and> snd (returnBook transactionId reqNotes now db) = ?db2)
      \<or> (\<exists>s. students db (student t) = Some s
            \<and> snd (returnBook transactionId reqNotes now db) = ?db3 s)"
    using Some b ok spos
    by (cases "students db (student t)") (auto simp add: returnBook_def Let_def same)
  have books2: "0 \<le> availableCopies b'
      \<and> availableCopies b' + activeLoans book bid (saveTransaction ?t2 ?txs) \<le> totalCopies b'"
    if "((books db)(book t \<mapsto> b\<lparr>availableCopies := availableCopies b + 1\<rparr>)) bid = Some b'"
    for bid b'
  proof (cases "bid = book t")
    case True
    with that have "b' = b\<lparr>availableCopies := availableCopies b + 1\<rparr>" by simp
    with True bc consistent_book [OF c b] show ?thesis by (simp add: cnt)
  next
    case False
    with that have "books db bid = Some b'" by simp
    from consistent_book [OF c this] False show ?thesis by (simp add: cnt)
  qed
  have nobook2: "activeLoans book bid (saveTransaction ?t2 ?txs) = 0"
    if "((books db)(book t \<mapsto> b\<lparr>availableCopies := availableCopies b + 1\<rparr>)) bid = None" for bid
  proof -
    from that have "bid \<noteq> book t" "books db bid = None" by (auto split: if_splits)
    with consistent_bookless [OF c this(2)] show ?thesis by (simp add: cnt)
  qed
  have dist2: "distinct (map tid (saveTransaction ?t2 ?txs))"
    using consistent_distinct [OF c] by (simp add: map_tid_saveTransaction)
  from res show ?thesis
  proof (elim disjE conjE exE)
    assume "snd (returnBook transactionId reqNotes now db) = db"
    with c show ?thesis by simp
  next
    assume none: "students db (student t) = None"
      and r: "snd (returnBook transactionId reqNotes now db) = ?db2"
    have "consistent ?db2"
    proof (rule consistentI)
      fix sid s
      assume "students ?db2 sid = Some s"
      then have s: "students db sid = Some s" by simp
      with none have "sid \<noteq> student t" by auto
      with consistent_student [OF c s]
      show "currentBooksIssued s = activeLoans student sid (transactions ?db2)
           \<and> currentBooksIssued s \<le> maxBooksAllowed s"
        by (simp add: cnt)
    qed (use dist2 books2 nobook2 in simp_all)
    with r show ?thesis by simp
  next
    fix s
    assume some: "students db (student t) = Some s"
      and r: "snd (returnBook transactionId reqNotes now db) = ?db3 s"
    have "consistent (?db3 s)"
    proof (rule consistentI)
      fix sid s'
      assume a: "students (?db3 s) sid = Some s'"
      show "currentBooksIssued s' = activeLoans student sid (transactions (?db3 s))
           \<and> currentBooksIssued s' \<le> maxBooksAllowed s'"
      proof (cases "sid = student t")
        case True
        with a have "s' = s\<lparr>currentBooksIssued := currentBooksIssued s - 1\<rparr>" by simp
        with True consistent_student [OF c some] show ?thesis by (simp add: cnt)
      next
        case False
        with a have "students db sid = Some s'" by simp
        from consistent_student [OF c this] False show ?thesis by (simp add: cnt)
      qed
    qed (use dist2 books2 nobook2 in simp_all)
    with r show ?thesis by simp
  qed
qed

text \<open>
  Issue, return and renew requests keep a consistent state consistent; so without a sweep
  no student's counter passes the student's limit.
\<close>

lemma consistent_handle:
  "consistent db \<Longrightarrow> \<not> isSweep r \<Longrightarrow> consistent (handle zone r db)"
  by (cases r) (simp_all add: consistent_issue consistent_returnBook consistent_renew)

lemma consistent_run:
  "consistent db \<Longrightarrow> \<forall>r\<in>set rs. \<not> isSweep r \<Longrightarrow> consistent (run zone rs db)"
  by (induction rs arbitrary: db) (simp_all add: consistent_handle)

lemma quota_kept_without_sweep:
  "consistent db \<Longrightarrow> \<forall>r\<in>set rs. \<not> isSweep r \<Longrightarrow> students (run zone rs db) sid = Some s \<Longrightarrow>
     currentBooksIssued s \<le> maxBooksAllowed s"
  using consistent_student [OF consistent_run] by blast

lemma consistent_exDb: "consistent exDb"
  by (rule consistentI) (auto simp add: exDb_def exBook_def exStudent_def activeLoans_def
      countDocuments_def split: if_splits)

section \<open>Loans the sweep has marked overdue\<close>

text \<open>
  Claim C1. The return route looks for the transaction with status \<^verbatim>\<open>active\<close> only.
  On the example library the request to return the loan of book 1 on day 16 goes through
  while the loan is \<^verbatim>\<open>active\<close>: the loan is stored as returned with a fine of 4, the
  copy is back and the student's counter is 0 (\<open>returnBook_active\<close> is the general
  statement). Once the sweep has marked the loan \<^verbatim>\<open>overdue\<close>, the same request is
  answered \<^verbatim>\<open>Active transaction not found\<close> and nothing changes: the loan cannot be
  returned, its copy and the student's slot stay taken.
\<close>

theorem overdue_loan_not_returnable:
  "map status (transactions lentDb) = [Active]
   \<and> map status (transactions (snd (returnBook 1 None (16 * day_ms) lentDb))) = [Returned]
   \<and> map (\<lambda>t. amount (fine t)) (transactions (snd (returnBook 1 None (16 * day_ms) lentDb))) = [4]
   \<and> map_option availableCopies (books (snd (returnBook 1 None (16 * day_ms) lentDb)) 1) = Some 1
   \<and> map_option currentBooksIssued (students (snd (returnBook 1 None (16 * day_ms) lentDb)) 1)
        = Some 0
   \<and> map status (transactions sweptDb) = [Overdue] \<and> map tid (transactions sweptDb) = [1]
   \<and> returnBook 1 None (16 * day_ms) sweptDb = (Inl TransactionNotFound, sweptDb)
   \<and> map_option availableCopies (books sweptDb 1) = Some 0
   \<and> map_option currentBooksIssued (students sweptDb 1) = Some 1"
  by (simp add: sweptDb_eq lentDb_eq exLoan_def exBook_def exStudent_def returnBook_def
      findOne_def saveTransaction_def orNotes_def notesValid_def bookSaveOk_def calculateFine_def
      ceilDiv_def day_ms_def Let_def)

text \<open>
  Claim C3. The book limit of the issue route counts the student's transactions with status
  \<^verbatim>\<open>active\<close> only, and the sweep takes loans out of that count. The example library
  is consistent (\<open>consistent_exDb\<close>) and its student may hold one book. After the issue
  of book 1, a sweep on day 15 that marks the loan \<^verbatim>\<open>overdue\<close> and the issue of
  book 2, the student's \<^verbatim>\<open>currentBooksIssued\<close> is 2 and \<^verbatim>\<open>maxBooksAllowed\<close> is 1.
  Without a sweep the counter stays within the limit (\<open>quota_kept_without_sweep\<close>).
\<close>

theorem quota_exceeded_after_sweep:
  "map_option maxBooksAllowed (students exDb 1) = Some 1
   \<and> map_option currentBooksIssued (students exDb 1) = Some 0
   \<and> transactions exDb = []
   \<and> map_option currentBooksIssued (students (run utcZone
        [Issue 1 1 None 9 0, OverdueSweep (constClock (15 * day_ms)), Issue 2 1 None 9 (15 * day_ms)]
        exDb) 1) = Some 2
   \<and> map_option maxBooksAllowed (students (run utcZone
        [Issue 1 1 None 9 0, OverdueSweep (constClock (15 * day_ms)), Issue 2 1 None 9 (15 * day_ms)]
        exDb) 1) = Some 1"
  by (simp add: exDb_def exBook_def exStudent_def route_defs day_ms_def)

end
